(* ===== verification/Prelude.thy ===== *)
theory Prelude
  imports Main "HOL-Library.Word"
begin

text \<open>
  Shared vocabulary of the development: the machine types of the Go code, the outcome of a
  call that may panic, the error values of the packages \<open>bus\<close> and \<open>routing\<close>, and the generic
  lemmas on lists and words that the component theories rest on. The collection
  \<open>go_const\<close> holds the values of the source's named constants, \<open>le_simps\<close> the equations
  that evaluate the byte codec.
\<close>

unbundle bit_operations_syntax

named_theorems go_const \<open>values of the named constants of the source\<close>
named_theorems le_simps \<open>evaluation of little-endian reads and writes\<close>

type_synonym byte = "8 word"
type_synonym u16 = "16 word"
type_synonym u32 = "32 word"
type_synonym u64 = "64 word"

section \<open>Outcomes and errors\<close>

text \<open>
  A Go call returns or panics. Only operations that can reach a run-time panic (a slice
  expression whose bounds come from shared memory) have this type.
\<close>

datatype 'a outcome = Panic | Return 'a

text \<open>
  The error values of the package, one constructor per \<open>errors.New\<close> variable, the errors a
  system call returns (\<open>Errno\<close>, with \<open>ECONNREFUSED\<close> apart because the code asks for it), the
  error of an ended context, and the two shapes that carry another error.
\<close>

datatype error =
    ErrRingLayout
  | ErrRegion
  | ErrDenied
  | ErrProtocol
  | ErrEpoch
  | ErrWouldBlock
  | ErrPayload
  | ErrModuleMessage
  | ErrModuleConfig
  | ErrModuleRuntime
  | ErrModuleCallDeadline
  | ErrModuleCallCancelled
  | ErrModuleCallFailed
  | ErrModuleCallCapabilityAbsent
  | ErrModuleCallRejected
  | ModuleCallStatusError u16
  | ECONNREFUSED
  | Errno nat
  | CtxErr
  | Wrapped error error
  | Annotated error error

text \<open>
  \<open>errors.Is\<close> walks the chain: a joined error (\<open>Wrapped\<close>) matches what either part matches, one
  made by \<open>fmt.Errorf\<close> with \<open>%w\<close> and \<open>%v\<close> (\<open>Annotated\<close>) what the first part matches,
  and \<open>ModuleCallStatusError\<close> unwraps to \<open>ErrModuleCallFailed\<close>.
\<close>

fun errors_Is :: "error \<Rightarrow> error \<Rightarrow> bool" where
  "errors_Is (Wrapped a b) t = (Wrapped a b = t \<or> errors_Is a t \<or> errors_Is b t)"
| "errors_Is (Annotated a b) t = (Annotated a b = t \<or> errors_Is a t)"
| "errors_Is (ModuleCallStatusError s) t =
     (ModuleCallStatusError s = t \<or> ErrModuleCallFailed = t)"
| "errors_Is e t = (e = t)"

lemma errors_Is_refl [simp]: "errors_Is e e"
  by (cases e) simp_all

section \<open>Buffers\<close>

text \<open>
  Overwriting part of a buffer: \<open>put_at off ys xs\<close> is what \<open>copy(xs[off:], ys)\<close> leaves in
  \<open>xs\<close> when \<open>ys\<close> fits, the shape of every store of the code.
\<close>

definition put_at :: "nat \<Rightarrow> 'a list \<Rightarrow> 'a list \<Rightarrow> 'a list" where
  "put_at off ys xs = take off xs @ ys @ drop (off + length ys) xs"

definition slice_at :: "nat \<Rightarrow> nat \<Rightarrow> 'a list \<Rightarrow> 'a list" where
  "slice_at off n xs = take n (drop off xs)"

lemma length_put_at [simp]:
  "off + length ys \<le> length xs \<Longrightarrow> length (put_at off ys xs) = length xs"
  by (simp add: put_at_def)

lemma length_slice_at [simp]:
  "off + n \<le> length xs \<Longrightarrow> length (slice_at off n xs) = n"
  by (simp add: slice_at_def)

lemma take_put_at_before:
  "n \<le> off \<Longrightarrow> off \<le> length xs \<Longrightarrow> take n (put_at off ys xs) = take n xs"
  by (simp add: put_at_def min_def)

lemma put_at_Nil [simp]: "put_at off [] xs = xs"
  by (simp add: put_at_def)

lemma put_at_Cons: "off < length xs \<Longrightarrow> put_at off (y # ys) xs = put_at (Suc off) ys (xs[off := y])"
  by (simp add: put_at_def take_Suc_conv_app_nth)

lemma slice_put_at_same:
  "off + length ys \<le> length xs \<Longrightarrow> length ys = n \<Longrightarrow> slice_at off n (put_at off ys xs) = ys"
  by (simp add: slice_at_def put_at_def)

lemma slice_put_at_before:
  assumes "a + n \<le> off" and "off \<le> length xs"
  shows "slice_at a n (put_at off ys xs) = slice_at a n xs"
proof -
  have "slice_at a n zs = drop a (take (a + n) zs)" for zs :: "'a list"
    by (simp add: slice_at_def take_drop add.commute)
  with assms show ?thesis
    by (simp add: take_put_at_before)
qed

lemma drop_put_at_after:
  assumes "off + length ys \<le> a" and "a \<le> length xs"
  shows "drop a (put_at off ys xs) = drop a xs"
proof -
  have "off \<le> length xs" and "off + (a - off) = a"
    using assms by simp_all
  then show ?thesis
    using assms by (simp add: put_at_def)
qed

lemma slice_put_at_after:
  "off + length ys \<le> a \<Longrightarrow> a \<le> length xs \<Longrightarrow>
   slice_at a n (put_at off ys xs) = slice_at a n xs"
  by (simp add: slice_at_def drop_put_at_after)

lemma slice_put_at_inside:
  assumes "off \<le> a" and "a + n \<le> off + length ys" and "off + length ys \<le> length xs"
  shows "slice_at a n (put_at off ys xs) = slice_at (a - off) n ys"
proof -
  have "length (take off xs) = off" and "n \<le> length ys - (a - off)"
    using assms by simp_all
  then show ?thesis
    using assms by (simp add: slice_at_def put_at_def)
qed

lemma drop_slice_at: "drop a (slice_at b n xs) = slice_at (b + a) (n - a) xs"
  by (simp add: slice_at_def drop_take add.commute)

lemma take_slice_at: "take k (slice_at b n xs) = slice_at b (min k n) xs"
  by (simp add: slice_at_def)

lemma slice_at_whole: "slice_at 0 (length xs) xs = xs"
  by (simp add: slice_at_def)

lemma slice_slice_at:
  "a + k \<le> n \<Longrightarrow> slice_at a k (slice_at b n xs) = slice_at (b + a) k xs"
  by (simp add: slice_at_def drop_take add.commute min_def)

lemma put_at_slice [simp]: "off + n \<le> length xs \<Longrightarrow> put_at off (slice_at off n xs) xs = xs"
  by (simp add: put_at_def slice_at_def drop_drop add.commute flip: append_assoc take_add)

lemma put_at_inside:
  assumes "d + length ys \<le> length xs" and "off + length xs \<le> length m"
  shows "put_at (off + d) ys (put_at off xs m) = put_at off (put_at d ys xs) m"
proof -
  have "take (off + d) (put_at off xs m) = take off m @ take d xs"
    using assms by (simp add: put_at_def)
  moreover have "drop (off + d + length ys) (put_at off xs m) = drop (d + length ys) xs @ drop (off + length xs) m"
    using assms by (simp add: put_at_def)
  ultimately show ?thesis
    using assms by (simp add: put_at_def [of "off + d"]) (simp add: put_at_def)
qed

section \<open>Widening conversions\<close>

text \<open>Go's conversion to a wider unsigned type keeps the value.\<close>

lemma unat_ucast_widen:
  fixes x :: "'a::len word"
  assumes "LENGTH('a) \<le> LENGTH('b::len)"
  shows "unat (ucast x :: 'b word) = unat x"
proof -
  have "unat x < 2 ^ LENGTH('a)" by (rule unsigned_less)
  also have "\<dots> \<le> 2 ^ LENGTH('b)" using assms by simp
  finally show ?thesis by (simp add: unsigned_ucast_eq take_bit_nat_eq_self_iff)
qed

lemma unat_widen [simp]:
  "unat (ucast (a :: u16) :: u32) = unat a"
  "unat (ucast (a :: u16) :: u64) = unat a"
  "unat (ucast (b :: u32) :: u64) = unat b"
  by (simp_all add: unat_ucast_widen)

text \<open>
  A Go \<open>int\<close> is a 64-bit word read as signed; below \<open>2^63\<close> that is the unsigned reading.
\<close>

lemma go_int_less:
  fixes w :: u64
  assumes "unat w < 2 ^ 63"
  shows "int n < sint w \<longleftrightarrow> n < unat w"
proof -
  have w: "uint w = int (unat w)" by simp
  have "uint w < 2 ^ 63"
    unfolding w using assms [folded of_nat_less_iff [where 'a = int]]
    by (simp only: of_nat_power of_nat_numeral)
  moreover have "- (2 ^ 63) \<le> uint w"
    by (rule order_trans [OF _ uint_ge_0]) simp
  ultimately have "sint w = uint w"
    unfolding sint_uint by (intro signed_take_bit_int_eq_self) simp_all
  then show ?thesis
    unfolding w by (simp only: of_nat_less_iff)
qed

section \<open>Powers of two as words\<close>

text \<open>
  The test \<open>v != 0 && v&(v-1) == 0\<close>, which the code uses for message patterns and ring
  capacities, holds of the powers of two and of nothing else.
\<close>

lemma nat_and_pred_zero_imp_power:
  "0 < n \<Longrightarrow> n AND (n - 1) = 0 \<Longrightarrow> \<exists>k. n = 2 ^ k" for n :: nat
proof (induction n rule: less_induct)
  case (less n)
  show ?case
  proof (cases "even n")
    case True
    then obtain m where m: "n = 2 * m" by (elim evenE)
    with less.prems(1) have "0 < m" and "n - 1 = 2 * (m - 1) + 1" by simp_all
    with m have "n div 2 = m" and "(n - 1) div 2 = m - 1" by simp_all
    with \<open>even n\<close> have "n AND (n - 1) = 2 * (m AND (m - 1))"
      by (subst and_nat_rec) (simp only: simp_thms of_bool_eq add_0)
    with less.prems(2) have "m AND (m - 1) = 0" by simp
    with less.IH [of m] m \<open>0 < m\<close> obtain k where "m = 2 ^ k" by auto
    with m have "n = 2 ^ Suc k" by simp
    then show ?thesis ..
  next
    case False
    then obtain m where m: "n = 2 * m + 1" by (elim oddE)
    then have "n div 2 = m" and "(n - 1) div 2 = m" and "even (n - 1)" by simp_all
    then have "n AND (n - 1) = 2 * (m AND m)"
      by (subst and_nat_rec) simp
    with less.prems(2) have "m = 0" by simp
    with m have "n = 2 ^ 0" by simp
    then show ?thesis ..
  qed
qed

lemma word_and_pred_zero_imp_power:
  fixes v :: "'a::len word"
  assumes "v \<noteq> 0" and "v AND (v - 1) = 0"
  shows "\<exists>k < LENGTH('a). v = 2 ^ k"
proof -
  have "unat (v - 1) = unat v - 1"
    using assms(1) by (simp add: unat_minus_one)
  moreover have "unat (v AND (v - 1)) = 0"
    using assms(2) by simp
  ultimately have "unat v AND (unat v - 1) = 0"
    by (simp add: unsigned_and_eq)
  with assms(1) obtain k where k: "unat v = 2 ^ k"
    using nat_and_pred_zero_imp_power [of "unat v"] by (auto simp: unat_gt_0)
  moreover have "unat v < 2 ^ LENGTH('a)"
    by (rule unsigned_less)
  ultimately have "k < LENGTH('a)"
    by simp
  moreover from this k have "v = 2 ^ k"
    by (simp add: word_unat_eq_iff unat_of_nat [of "2 ^ k", simplified])
  ultimately show ?thesis by blast
qed

lemma word_power_and_pred:
  "k < LENGTH('a) \<Longrightarrow> (2 :: 'a::len word) ^ k \<noteq> 0 \<and> 2 ^ k AND (2 ^ k - 1) = (0 :: 'a word)"
  by (auto simp: mask_eq_exp_minus_1 [symmetric] bit_simps intro!: bit_word_eqI)

lemma word_power_of_two_iff:
  "v \<noteq> 0 \<and> v AND (v - 1) = 0 \<longleftrightarrow> (\<exists>k < LENGTH('a). v = 2 ^ k)" for v :: "'a::len word"
proof
  assume "v \<noteq> 0 \<and> v AND (v - 1) = 0"
  then show "\<exists>k < LENGTH('a). v = 2 ^ k"
    by (intro word_and_pred_zero_imp_power) simp_all
next
  assume "\<exists>k < LENGTH('a). v = 2 ^ k"
  then obtain k where "k < LENGTH('a)" and "v = 2 ^ k" by blast
  then show "v \<noteq> 0 \<and> v AND (v - 1) = 0"
    using word_power_and_pred [of k, where 'a = 'a] by simp
qed

lemma unat_and_power_pred:
  fixes i :: "'a::len word"
  shows "unat (i AND (2 ^ k - 1)) = unat i mod 2 ^ k"
proof -
  have "i AND (2 ^ k - 1) = take_bit k i"
    by (simp add: take_bit_eq_mask mask_eq_exp_minus_1)
  then have "unat (i AND (2 ^ k - 1)) = take_bit k (unat i)"
    by (simp add: unsigned_take_bit_eq)
  then show ?thesis
    by (simp only: take_bit_nat_def)
qed

lemma mask_clear: "x AND NOT (mask n) = push_bit n (drop_bit n x)" for x :: "'a::len word"
  by (rule bit_word_eqI) (auto simp: bit_simps)

end
