(* ===== verification/LittleEndian.thy ===== *)
theory LittleEndian
  imports Prelude
begin

text \<open>
  Go's \<open>binary.LittleEndian\<close>: reads (\<open>Uint16\<close>, \<open>Uint32\<close>, \<open>Uint64\<close>, of the slice they are
  given) and writes (\<open>PutUint16\<close>, \<open>PutUint32\<close>, \<open>PutUint64\<close> at an offset of a buffer), with
  the round trips between them and the interface every header codec of the bus meets. A read
  or write out of the slice would panic in Go; every caller of the source has compared the
  length of the slice with the size of the header first, so the reads are modelled on
  buffers that are long enough.
\<close>

unbundle bit_operations_syntax

section \<open>Reads and writes\<close>

definition Uint16 :: "byte list \<Rightarrow> u16" where
  "Uint16 b = ucast (b ! 0) OR push_bit 8 (ucast (b ! 1))"

definition Uint32 :: "byte list \<Rightarrow> u32" where
  "Uint32 b = ucast (b ! 0) OR push_bit 8 (ucast (b ! 1)) OR push_bit 16 (ucast (b ! 2))
     OR push_bit 24 (ucast (b ! 3))"

definition Uint64 :: "byte list \<Rightarrow> u64" where
  "Uint64 b = ucast (b ! 0) OR push_bit 8 (ucast (b ! 1)) OR push_bit 16 (ucast (b ! 2))
     OR push_bit 24 (ucast (b ! 3)) OR push_bit 32 (ucast (b ! 4)) OR push_bit 40 (ucast (b ! 5))
     OR push_bit 48 (ucast (b ! 6)) OR push_bit 56 (ucast (b ! 7))"

definition le16 :: "u16 \<Rightarrow> byte list" where
  "le16 v = [ucast v, ucast (drop_bit 8 v)]"

definition le32 :: "u32 \<Rightarrow> byte list" where
  "le32 v = [ucast v, ucast (drop_bit 8 v), ucast (drop_bit 16 v), ucast (drop_bit 24 v)]"

definition le64 :: "u64 \<Rightarrow> byte list" where
  "le64 v = [ucast v, ucast (drop_bit 8 v), ucast (drop_bit 16 v), ucast (drop_bit 24 v),
     ucast (drop_bit 32 v), ucast (drop_bit 40 v), ucast (drop_bit 48 v), ucast (drop_bit 56 v)]"

definition PutUint16 :: "nat \<Rightarrow> u16 \<Rightarrow> byte list \<Rightarrow> byte list" where
  "PutUint16 off v b = put_at off (le16 v) b"

definition PutUint32 :: "nat \<Rightarrow> u32 \<Rightarrow> byte list \<Rightarrow> byte list" where
  "PutUint32 off v b = put_at off (le32 v) b"

definition PutUint64 :: "nat \<Rightarrow> u64 \<Rightarrow> byte list \<Rightarrow> byte list" where
  "PutUint64 off v b = put_at off (le64 v) b"

lemma length_le [simp]: "length (le16 a) = 2" "length (le32 b) = 4" "length (le64 c) = 8"
  by (simp_all add: le16_def le32_def le64_def)


lemma Uint16_le16 [simp]: "Uint16 (le16 v @ r) = v"
proof (rule bit_word_eqI)
  fix n assume "n < LENGTH(16)"
  then consider "n < 8" | "8 \<le> n" "n < 16" by fastforce
  then show "bit (Uint16 (le16 v @ r)) n = bit v n"
    by cases (simp_all add: Uint16_def le16_def bit_simps less_diff_conv2)
qed

lemma Uint32_le32 [simp]: "Uint32 (le32 v @ r) = v"
proof (rule bit_word_eqI)
  fix n assume "n < LENGTH(32)"
  then consider "n < 8" | "8 \<le> n" "n < 16" | "16 \<le> n" "n < 24" | "24 \<le> n" "n < 32"
    by fastforce
  then show "bit (Uint32 (le32 v @ r)) n = bit v n"
    by cases (simp_all add: Uint32_def le32_def bit_simps less_diff_conv2)
qed

lemma Uint64_le64 [simp]: "Uint64 (le64 v @ r) = v"
proof (rule bit_word_eqI)
  fix n assume "n < LENGTH(64)"
  then consider "n < 8" | "8 \<le> n" "n < 16" | "16 \<le> n" "n < 24" | "24 \<le> n" "n < 32"
    | "32 \<le> n" "n < 40" | "40 \<le> n" "n < 48" | "48 \<le> n" "n < 56" | "56 \<le> n" "n < 64"
    by fastforce
  then show "bit (Uint64 (le64 v @ r)) n = bit v n"
    by cases (simp_all add: Uint64_def le64_def bit_simps less_diff_conv2)
qed

lemma Uint_le_exact [simp]: "Uint16 (le16 a) = a" "Uint32 (le32 b) = b" "Uint64 (le64 c) = c"
  using Uint16_le16 [of a "[]"] Uint32_le32 [of b "[]"] Uint64_le64 [of c "[]"] by simp_all

lemma le_inj [simp]:
  "le16 a = le16 a' \<longleftrightarrow> a = a'" "le32 b = le32 b' \<longleftrightarrow> b = b'" "le64 c = le64 c' \<longleftrightarrow> c = c'"
  by (metis Uint_le_exact)+

lemma Uint_take [simp]:
  "2 \<le> n \<Longrightarrow> Uint16 (take n b) = Uint16 b"
  "4 \<le> n \<Longrightarrow> Uint32 (take n b) = Uint32 b"
  "8 \<le> n \<Longrightarrow> Uint64 (take n b) = Uint64 b"
  by (simp_all add: Uint16_def Uint32_def Uint64_def)

lemma bit_byte_beyond: "8 \<le> n \<Longrightarrow> bit (b :: byte) n = False"
  using bit_imp_le_length [of b n] by auto

lemma le16_Uint16: "le16 (Uint16 (a # b # r)) = [a, b]"
  by (auto simp: Uint16_def le16_def bit_simps bit_byte_beyond intro!: bit_word_eqI)

lemma le32_Uint32: "le32 (Uint32 (a # b # c # d # r)) = [a, b, c, d]"
  by (auto simp: Uint32_def le32_def bit_simps bit_byte_beyond intro!: bit_word_eqI)

lemma le64_Uint64:
  "le64 (Uint64 (a # b # c # d # e # f # g # h # r)) = [a, b, c, d, e, f, g, h]"
  by (auto simp: Uint64_def le64_def bit_simps bit_byte_beyond intro!: bit_word_eqI)

lemma le32_take_read: "4 \<le> length bs \<Longrightarrow> le32 (Uint32 bs) = take 4 bs"
proof -
  assume "4 \<le> length bs"
  then obtain a b c d r where "bs = a # b # c # d # r"
    by (auto simp: numeral_eq_Suc Suc_le_length_iff)
  then show ?thesis by (simp add: le32_Uint32)
qed

lemma le16_take_read: "2 \<le> length bs \<Longrightarrow> le16 (Uint16 bs) = take 2 bs"
proof -
  assume "2 \<le> length bs"
  then obtain a b r where "bs = a # b # r"
    by (auto simp: numeral_eq_Suc Suc_le_length_iff)
  then show ?thesis by (simp add: le16_Uint16)
qed

lemma le64_take_read: "8 \<le> length bs \<Longrightarrow> le64 (Uint64 bs) = take 8 bs"
proof -
  assume "8 \<le> length bs"
  then obtain a b c d e f g h r where "bs = a # b # c # d # e # f # g # h # r"
    by (auto simp: numeral_eq_Suc Suc_le_length_iff)
  then show ?thesis by (simp add: le64_Uint64)
qed

text \<open>
  Reading at a field's offset skips the fields before it, and writing at the end of what is
  already written appends: with these equations the simplifier runs an encoder or a decoder.
\<close>

lemma put_at_skip: "length xs \<le> off \<Longrightarrow> put_at off ys (xs @ zs) = xs @ put_at (off - length xs) ys zs"
  by (simp add: put_at_def)

lemma put_at_front: "put_at 0 ys zs = ys @ drop (length ys) zs"
  by (simp add: put_at_def)

lemma Put_skip [le_simps]:
  "length xs \<le> off \<Longrightarrow> PutUint16 off a (xs @ zs) = xs @ PutUint16 (off - length xs) a zs"
  "length xs \<le> off \<Longrightarrow> PutUint32 off b (xs @ zs) = xs @ PutUint32 (off - length xs) b zs"
  "length xs \<le> off \<Longrightarrow> PutUint64 off c (xs @ zs) = xs @ PutUint64 (off - length xs) c zs"
  by (simp_all add: PutUint16_def PutUint32_def PutUint64_def put_at_skip)

lemma Put_front [le_simps]:
  "PutUint16 0 a zs = le16 a @ drop 2 zs"
  "PutUint32 0 b zs = le32 b @ drop 4 zs"
  "PutUint64 0 c zs = le64 c @ drop 8 zs"
  by (simp_all add: PutUint16_def PutUint32_def PutUint64_def put_at_front)

lemma length_Put [simp]:
  "off + 2 \<le> length bs \<Longrightarrow> length (PutUint16 off a bs) = length bs"
  "off + 4 \<le> length bs \<Longrightarrow> length (PutUint32 off b bs) = length bs"
  "off + 8 \<le> length bs \<Longrightarrow> length (PutUint64 off c bs) = length bs"
  by (simp_all add: PutUint16_def PutUint32_def PutUint64_def)

text \<open>A read after a write at the same place, and after a write elsewhere.\<close>

lemma read_write_same:
  "off + 4 \<le> length m \<Longrightarrow> Uint32 (drop off (PutUint32 off a m)) = a"
  "off + 8 \<le> length m \<Longrightarrow> Uint64 (drop off (PutUint64 off b m)) = b"
  by (simp_all add: PutUint32_def PutUint64_def put_at_def)

lemma Uint32_drop_put_at:
  assumes "off + 4 \<le> a \<or> a + length ys \<le> off" and "a + length ys \<le> length m"
    and "off + 4 \<le> length m"
  shows "Uint32 (drop off (put_at a ys m)) = Uint32 (drop off m)"
proof -
  have "slice_at off 4 (put_at a ys m) = slice_at off 4 m"
    using assms slice_put_at_before [of off 4 a m ys] slice_put_at_after [of a ys off m 4] by auto
  then show ?thesis
    by (metis Uint_take(2) slice_at_def order_refl)
qed

lemma Uint64_drop_put_at:
  assumes "off + 8 \<le> a \<or> a + length ys \<le> off" and "a + length ys \<le> length m"
    and "off + 8 \<le> length m"
  shows "Uint64 (drop off (put_at a ys m)) = Uint64 (drop off m)"
proof -
  have "slice_at off 8 (put_at a ys m) = slice_at off 8 m"
    using assms slice_put_at_before [of off 8 a m ys] slice_put_at_after [of a ys off m 8] by auto
  then show ?thesis
    by (metis Uint_take(3) slice_at_def order_refl)
qed

lemma read_write_other:
  "off + 4 \<le> p \<or> p + 4 \<le> off \<Longrightarrow> p + 4 \<le> length m \<Longrightarrow> off + 4 \<le> length m \<Longrightarrow>
     Uint32 (drop off (PutUint32 p a m)) = Uint32 (drop off m)"
  "off + 4 \<le> p \<or> p + 8 \<le> off \<Longrightarrow> p + 8 \<le> length m \<Longrightarrow> off + 4 \<le> length m \<Longrightarrow>
     Uint32 (drop off (PutUint64 p b m)) = Uint32 (drop off m)"
  "off + 8 \<le> p \<or> p + 4 \<le> off \<Longrightarrow> p + 4 \<le> length m \<Longrightarrow> off + 8 \<le> length m \<Longrightarrow>
     Uint64 (drop off (PutUint32 p a m)) = Uint64 (drop off m)"
  "off + 8 \<le> p \<or> p + 8 \<le> off \<Longrightarrow> p + 8 \<le> length m \<Longrightarrow> off + 8 \<le> length m \<Longrightarrow>
     Uint64 (drop off (PutUint64 p b m)) = Uint64 (drop off m)"
  by (simp_all add: PutUint32_def PutUint64_def Uint32_drop_put_at Uint64_drop_put_at)

lemma drop_Put:
  "p + 4 \<le> n \<Longrightarrow> n \<le> length m \<Longrightarrow> drop n (PutUint32 p a m) = drop n m"
  "p + 8 \<le> n \<Longrightarrow> n \<le> length m \<Longrightarrow> drop n (PutUint64 p b m) = drop n m"
  by (simp_all add: PutUint32_def PutUint64_def drop_put_at_after)

section \<open>The interface of a header codec\<close>

text \<open>
  A header codec turns a value into \<open>width\<close> bytes and reads it back from the front of a
  buffer that may hold more; \<open>room x\<close> is how many bytes the header of \<open>x\<close> promises after
  itself. A provider shows that a valid value survives the trip, that nothing else is
  accepted and that the accepted bytes are the encoding; the client lemmas follow.
\<close>

locale header_codec =
  fixes valid :: "'a \<Rightarrow> bool"
    and header :: "'a \<Rightarrow> byte list"
    and decode :: "byte list \<Rightarrow> 'a option"
    and width :: nat
    and room :: "'a \<Rightarrow> nat"
  assumes length_header: "length (header x) = width"
    and decode_header: "valid x \<Longrightarrow> room x \<le> length rest \<Longrightarrow> decode (header x @ rest) = Some x"
    and decode_valid: "decode bs = Some x \<Longrightarrow> valid x"
    and decode_canonical: "decode bs = Some x \<Longrightarrow> take width bs = header x"
    and decode_room: "decode bs = Some x \<Longrightarrow> width + room x \<le> length bs"
begin

lemma decode_iff:
  "decode bs = Some x \<longleftrightarrow> valid x \<and> (\<exists>rest. bs = header x @ rest \<and> room x \<le> length rest)"
proof
  assume dec: "decode bs = Some x"
  have "bs = header x @ drop width bs"
    using decode_canonical [OF dec] by (metis append_take_drop_id)
  moreover have "room x \<le> length (drop width bs)"
    using decode_room [OF dec] by simp
  ultimately show "valid x \<and> (\<exists>rest. bs = header x @ rest \<and> room x \<le> length rest)"
    using decode_valid [OF dec] by blast
next
  assume "valid x \<and> (\<exists>rest. bs = header x @ rest \<and> room x \<le> length rest)"
  then show "decode bs = Some x"
    using decode_header by blast
qed

lemma header_inj:
  assumes "valid x" and "valid y" and "header x = header y"
  shows "x = y"
proof -
  obtain rest :: "byte list" where "room x \<le> length rest" and "room y \<le> length rest"
    using that [of "replicate (room x + room y) 0"] by simp
  then have "decode (header x @ rest) = Some x" and "decode (header y @ rest) = Some y"
    using assms(1,2) by (blast intro: decode_header)+
  with assms(3) have "Some x = Some y" by metis
  then show ?thesis by simp
qed

lemma decode_prefix:
  assumes "decode bs = Some x" and "decode cs = Some y" and "take width bs = take width cs"
  shows "x = y"
proof (rule header_inj)
  show "valid x" and "valid y"
    using assms(1,2) by (blast intro: decode_valid)+
  show "header x = header y"
    using decode_canonical [OF assms(1)] decode_canonical [OF assms(2)] assms(3) by simp
qed

lemma decode_more:
  assumes "decode bs = Some x"
  shows "decode (bs @ more) = Some x"
proof -
  have "bs @ more = header x @ (drop width bs @ more)"
    using decode_canonical [OF assms] by (metis append.assoc append_take_drop_id)
  moreover have "room x \<le> length (drop width bs @ more)"
    using decode_room [OF assms] by simp
  ultimately show ?thesis
    by (simp only: decode_header [OF decode_valid [OF assms]])
qed

end

end
