(* ===== verification/ModuleProtocol.thy ===== *)
theory ModuleProtocol
  imports LittleEndian
begin

text \<open>
  The AMOD payload envelope, \<open>server-go/bus/module_protocol.go\<close>: the 40-byte header that
  precedes the body of a module request or reply, its validity rule, encoder, decoder and
  deadline test.
\<close>

unbundle bit_operations_syntax

section \<open>Constants and types\<close>

definition ModuleMessageMagic :: u32 where [go_const]: "ModuleMessageMagic = 0x444f4d41"
definition ModuleMessageVersion :: u16 where [go_const]: "ModuleMessageVersion = 1"
definition ModuleMessageHeaderLen :: nat where [go_const]: "ModuleMessageHeaderLen = 40"
definition ModuleMessageMaxBody :: u32 where [go_const]: "ModuleMessageMaxBody = 16 * 1024 * 1024"

type_synonym ModuleOperation = u16
type_synonym ModuleStatus = u16

definition ModuleOpInvoke :: ModuleOperation where [go_const]: "ModuleOpInvoke = 1"
definition ModuleOpResult :: ModuleOperation where [go_const]: "ModuleOpResult = 2"

definition ModuleStatusOK :: ModuleStatus where [go_const]: "ModuleStatusOK = 0"
definition ModuleStatusCapabilityAbsent :: ModuleStatus where
  [go_const]: "ModuleStatusCapabilityAbsent = 1"
definition ModuleStatusCancelled :: ModuleStatus where [go_const]: "ModuleStatusCancelled = 2"
definition ModuleStatusDeadlineExceeded :: ModuleStatus where
  [go_const]: "ModuleStatusDeadlineExceeded = 3"
definition ModuleStatusInvalidRequest :: ModuleStatus where
  [go_const]: "ModuleStatusInvalidRequest = 4"
definition ModuleStatusInternal :: ModuleStatus where [go_const]: "ModuleStatusInternal = 5"

record ModuleMessage =
  mOperation :: ModuleOperation
  mStatus :: ModuleStatus
  mStageID :: u32
  mFlags :: u32
  mBodyLen :: u32
  mDeadlineNS :: u64
  mTraceID :: u64

section \<open>Operations\<close>

definition message_valid :: "ModuleMessage \<Rightarrow> bool" where
  "message_valid m =
    (if mOperation m \<noteq> ModuleOpInvoke \<and> mOperation m \<noteq> ModuleOpResult then False
     else if mStatus m > ModuleStatusInternal
       \<or> (mOperation m = ModuleOpInvoke \<and> mStatus m \<noteq> ModuleStatusOK) then False
     else mStageID m \<noteq> 0 \<and> mFlags m = 0 \<and> mBodyLen m \<le> ModuleMessageMaxBody)"

text \<open>The buffer after the call, and the Go pair of the byte count and the error.\<close>

definition ModuleMessage_Encode :: "ModuleMessage \<Rightarrow> byte list \<Rightarrow> (error + nat) \<times> byte list" where
  "ModuleMessage_Encode m out =
    (if length out < ModuleMessageHeaderLen \<or> \<not> message_valid m then (Inl ErrModuleMessage, out)
     else
      let b = put_at 0 (replicate ModuleMessageHeaderLen 0) out;
          b = PutUint32 0 ModuleMessageMagic b;
          b = PutUint16 4 ModuleMessageVersion b;
          b = PutUint16 6 (of_nat ModuleMessageHeaderLen) b;
          b = PutUint16 8 (mOperation m) b;
          b = PutUint16 10 (mStatus m) b;
          b = PutUint32 12 (mStageID m) b;
          b = PutUint32 16 (mFlags m) b;
          b = PutUint32 20 (mBodyLen m) b;
          b = PutUint64 24 (mDeadlineNS m) b;
          b = PutUint64 32 (mTraceID m) b
      in (Inr ModuleMessageHeaderLen, b))"

definition read_message :: "byte list \<Rightarrow> ModuleMessage" where
  "read_message b =
    \<lparr>mOperation = Uint16 (drop 8 b), mStatus = Uint16 (drop 10 b), mStageID = Uint32 (drop 12 b),
     mFlags = Uint32 (drop 16 b), mBodyLen = Uint32 (drop 20 b), mDeadlineNS = Uint64 (drop 24 b),
     mTraceID = Uint64 (drop 32 b)\<rparr>"

definition DecodeModuleMessage :: "byte list \<Rightarrow> error + ModuleMessage" where
  "DecodeModuleMessage b =
    (if length b < ModuleMessageHeaderLen \<or> Uint32 (drop 0 b) \<noteq> ModuleMessageMagic
       \<or> Uint16 (drop 4 b) \<noteq> ModuleMessageVersion
       \<or> Uint16 (drop 6 b) \<noteq> of_nat ModuleMessageHeaderLen
     then Inl ErrModuleMessage
     else let m = read_message b
          in if \<not> message_valid m \<or> unat (mBodyLen m) > length b - ModuleMessageHeaderLen
             then Inl ErrModuleMessage
             else Inr m)"

definition DeadlineExpired :: "ModuleMessage \<Rightarrow> u64 \<Rightarrow> bool" where
  "DeadlineExpired m nowNS \<longleftrightarrow> mDeadlineNS m \<noteq> 0 \<and> nowNS \<ge> mDeadlineNS m"

section \<open>What the encoder writes\<close>

definition message_header :: "ModuleMessage \<Rightarrow> byte list" where
  "message_header m =
     le32 ModuleMessageMagic @ le16 ModuleMessageVersion @ le16 (of_nat ModuleMessageHeaderLen)
     @ le16 (mOperation m) @ le16 (mStatus m) @ le32 (mStageID m) @ le32 (mFlags m)
     @ le32 (mBodyLen m) @ le64 (mDeadlineNS m) @ le64 (mTraceID m)"

lemma length_message_header [simp]: "length (message_header m) = ModuleMessageHeaderLen"
  by (simp add: message_header_def go_const)

lemma ModuleMessage_Encode_eq:
  assumes "ModuleMessageHeaderLen \<le> length out" and "message_valid m"
  shows "ModuleMessage_Encode m out =
    (Inr ModuleMessageHeaderLen, message_header m @ drop ModuleMessageHeaderLen out)"
proof -
  have "put_at 0 (replicate ModuleMessageHeaderLen 0) out =
      replicate ModuleMessageHeaderLen 0 @ drop ModuleMessageHeaderLen out"
    by (simp add: put_at_front)
  then show ?thesis
    using assms unfolding ModuleMessage_Encode_def message_header_def
    by (simp add: Let_def le_simps ModuleMessageHeaderLen_def)
qed

lemma read_message_header: "read_message (message_header m @ rest) = m"
  by (simp add: read_message_def message_header_def)

lemma message_header_read:
  assumes "ModuleMessageHeaderLen \<le> length b" and "Uint32 b = ModuleMessageMagic"
    and "Uint16 (drop 4 b) = ModuleMessageVersion"
    and "Uint16 (drop 6 b) = of_nat ModuleMessageHeaderLen"
  shows "message_header (read_message b) = take ModuleMessageHeaderLen b"
proof -
  have len: "40 \<le> length b" using assms(1) by (simp add: go_const)
  have reads32: "le32 (Uint32 (drop n b)) = slice_at n 4 b" if "n + 4 \<le> 40" for n
    using that len by (simp add: le32_take_read slice_at_def)
  have reads16: "le16 (Uint16 (drop n b)) = slice_at n 2 b" if "n + 2 \<le> 40" for n
    using that len by (simp add: le16_take_read slice_at_def)
  have reads64: "le64 (Uint64 (drop n b)) = slice_at n 8 b" if "n + 8 \<le> 40" for n
    using that len by (simp add: le64_take_read slice_at_def)
  have join: "take n b @ slice_at n k b = take (n + k) b" for n k
    by (simp add: slice_at_def take_add)
  have join_more: "take n b @ slice_at n k b @ rest = take (n + k) b @ rest" for n k rest
    by (simp add: slice_at_def take_add)
  have "le32 ModuleMessageMagic = take 4 b" "le16 ModuleMessageVersion = slice_at 4 2 b"
    "le16 (of_nat ModuleMessageHeaderLen) = slice_at 6 2 b"
    using assms(2-4) le32_take_read [of b] len reads16 [of 4] reads16 [of 6] by simp_all
  then show ?thesis
    by (simp add: message_header_def read_message_def reads16 reads32 reads64 join join_more)
      (simp add: go_const)
qed

lemma DecodeModuleMessage_header:
  assumes "message_valid m" and "unat (mBodyLen m) \<le> length rest"
  shows "DecodeModuleMessage (message_header m @ rest) = Inr m"
  using assms
  by (simp add: DecodeModuleMessage_def read_message_header) (simp add: message_header_def)

lemma DecodeModuleMessage_cases:
  "DecodeModuleMessage b = Inr m \<longleftrightarrow>
     ModuleMessageHeaderLen \<le> length b \<and> Uint32 b = ModuleMessageMagic
     \<and> Uint16 (drop 4 b) = ModuleMessageVersion
     \<and> Uint16 (drop 6 b) = of_nat ModuleMessageHeaderLen
     \<and> m = read_message b \<and> message_valid m
     \<and> unat (mBodyLen m) \<le> length b - ModuleMessageHeaderLen"
  by (auto simp: DecodeModuleMessage_def Let_def)

section \<open>The envelope as a header codec\<close>

definition decode_message :: "byte list \<Rightarrow> ModuleMessage option" where
  "decode_message b = (case DecodeModuleMessage b of Inl e \<Rightarrow> None | Inr m \<Rightarrow> Some m)"

lemma decode_message_Some: "decode_message b = Some m \<longleftrightarrow> DecodeModuleMessage b = Inr m"
  by (simp add: decode_message_def split: sum.splits)

interpretation message_codec: header_codec message_valid message_header decode_message
  ModuleMessageHeaderLen "\<lambda>m. unat (mBodyLen m)"
proof unfold_locales
  show "length (message_header m) = ModuleMessageHeaderLen" for m by simp
  show "decode_message (message_header m @ rest) = Some m"
    if "message_valid m" "unat (mBodyLen m) \<le> length rest" for m rest
    using that by (simp add: decode_message_Some DecodeModuleMessage_header)
  show "message_valid m" if "decode_message b = Some m" for b m
    using that by (auto simp: decode_message_Some DecodeModuleMessage_cases)
  show "take ModuleMessageHeaderLen b = message_header m" if "decode_message b = Some m" for b m
    using that message_header_read by (simp add: decode_message_Some DecodeModuleMessage_cases)
  show "ModuleMessageHeaderLen + unat (mBodyLen m) \<le> length b"
    if "decode_message b = Some m" for b m
    using that by (auto simp: decode_message_Some DecodeModuleMessage_cases)
qed

lemma decode_message_bounds:
  "DecodeModuleMessage b = Inr m \<Longrightarrow>
     ModuleMessageHeaderLen + unat (mBodyLen m) \<le> length b \<and> message_valid m"
  using message_codec.decode_room message_codec.decode_valid decode_message_Some by blast

section \<open>Properties\<close>

text \<open>a valid envelope written in front of its body is read back unchanged, and the bytes
  that follow the header are still there.\<close>

theorem message_roundtrip:
  assumes "message_valid m" and "ModuleMessageHeaderLen + unat (mBodyLen m) \<le> length out"
  shows "\<exists>b. ModuleMessage_Encode m out = (Inr ModuleMessageHeaderLen, b)
     \<and> drop ModuleMessageHeaderLen b = drop ModuleMessageHeaderLen out
     \<and> DecodeModuleMessage b = Inr m"
  using assms by (simp add: ModuleMessage_Encode_eq DecodeModuleMessage_header)

definition sample_message :: ModuleMessage where
  "sample_message = \<lparr>mOperation = 1, mStatus = 0, mStageID = 1, mFlags = 0, mBodyLen = 12,
     mDeadlineNS = 5000, mTraceID = 77\<rparr>"

lemma sample_message_valid: "message_valid sample_message"
  by (simp add: sample_message_def message_valid_def go_const)

lemma message_roundtrip_witness:
  "\<exists>b. ModuleMessage_Encode sample_message (replicate 52 9) = (Inr ModuleMessageHeaderLen, b)
     \<and> drop ModuleMessageHeaderLen b = drop ModuleMessageHeaderLen (replicate 52 9)
     \<and> DecodeModuleMessage b = Inr sample_message"
  by (rule message_roundtrip [OF sample_message_valid]) (simp add: go_const sample_message_def)

text \<open>C22: the decoder of the envelope accepts a buffer exactly when it starts with the header of
  a valid message and holds the whole body that header announces, so the body slice every
  caller takes is in bounds; the body never exceeds 16 MiB.\<close>

theorem decode_message_iff:
  "DecodeModuleMessage b = Inr m \<longleftrightarrow>
     message_valid m \<and> unat (mBodyLen m) \<le> 16777216 \<and>
     (\<exists>rest. b = message_header m @ rest \<and> unat (mBodyLen m) \<le> length rest)"
proof -
  have "message_valid m \<Longrightarrow> unat (mBodyLen m) \<le> 16777216"
    by (simp add: message_valid_def word_le_nat_alt go_const split: if_splits)
  then show ?thesis
    using message_codec.decode_iff [of b m] decode_message_Some by blast
qed

text \<open>a deadline, once passed, stays passed as the clock advances, and a message without a
  deadline never expires.\<close>

theorem deadline_monotone:
  assumes "DeadlineExpired m now" and "now \<le> later"
  shows "DeadlineExpired m later \<and> mDeadlineNS m \<noteq> 0"
  using assms by (auto simp: DeadlineExpired_def)

lemma deadline_monotone_witness:
  "DeadlineExpired sample_message 6000 \<and> mDeadlineNS sample_message \<noteq> 0"
  by (rule deadline_monotone [of _ 5000]) (simp_all add: DeadlineExpired_def sample_message_def)

end
