(* ===== verification/Invocation.thy ===== *)
theory Invocation
  imports ModuleProtocol
begin

text \<open>
  What a module handler sees of the transport, \<open>server-go/bus/module_runtime.go\<close>: the stage
  table entry, the invocation and its cancellation test. A \<open>cancelFlag\<close> is shared by pointer
  between the runtime and the handler, so flags live in a store and an invocation carries the
  address of its own, or none.
\<close>

type_synonym flag_ref = nat
type_synonym flag_store = "flag_ref \<Rightarrow> bool"

record ModuleStage =
  stEventKind :: u32
  stStageID :: u32

record ModuleInvocation =
  invStageID :: u32
  invDeadlineNS :: u64
  invTraceID :: u64
  invCancelled :: "flag_ref option"

text \<open>
  The process configuration. A handler is a parameter of the runtime; what matters there is whether
  one is configured.
\<close>

record 'h ModuleProcessConfig =
  cfgSocketPath :: string
  cfgModuleName :: string
  cfgPrincipalClass :: u32
  cfgPrincipalRef :: u32
  cfgStages :: "ModuleStage list"
  cfgHandler :: "'h option"

text \<open>
  A call of \<open>Cancelled\<close> depends on the moment it is made: on the flag store and on the clock
  reading \<open>monotonicNowNS\<close> returns then (0 when the clock cannot be read).
\<close>

type_synonym moment = "flag_store \<times> u64"

fun Cancelled :: "ModuleInvocation \<Rightarrow> moment \<Rightarrow> bool" where
  "Cancelled i (flags, now) =
    (if (case invCancelled i of None \<Rightarrow> False | Some r \<Rightarrow> flags r) then True
     else now \<noteq> 0 \<and> invDeadlineNS i \<noteq> 0 \<and> now \<ge> invDeadlineNS i)"

text \<open>The conversion of a \<open>unix.Timespec\<close> by \<open>monotonicNowNS\<close>; \<open>None\<close> is a failed clock call.\<close>

definition monotonicNowNS :: "(u64 \<times> u64) option \<Rightarrow> u64" where
  "monotonicNowNS ts = (case ts of None \<Rightarrow> 0 | Some (sec, nsec) \<Rightarrow> sec * 1000000000 + nsec)"

end
