(* ===== verification/Routing.thy ===== *)
theory Routing
  imports Invocation
begin

text \<open>
  The route-selection stage, \<open>server-go/modules/routing/routing.go\<close>: the mixing function, the
  selector with its round-robin cursor, and the handler. The C adapter that the Go handler
  mirrors (\<open>src/modules/routing/module_adapter.c\<close> with the wire contract
  \<open>module_api.h\<close>) is modelled beside it and the two are proved to agree.
\<close>

unbundle bit_operations_syntax

section \<open>Constants\<close>

definition EventKind :: u32 where [go_const]: "EventKind = 6401"
definition StageSelect :: u32 where [go_const]: "StageSelect = 1"
definition requestMagic :: u32 where [go_const]: "requestMagic = 0x54554f52"
definition responseMagic :: u32 where [go_const]: "responseMagic = 0x4c455352"
definition wireVersion :: u16 where [go_const]: "wireVersion = 1"
definition requestLen :: nat where [go_const]: "requestLen = 12"
definition responseLen :: nat where [go_const]: "responseLen = 8"
definition selectBalanced :: u16 where [go_const]: "selectBalanced = 1"
definition selectRandomized :: u16 where [go_const]: "selectRandomized = 2"

section \<open>The selector\<close>

record Selector =
  cursor :: u32

definition defaultSelector :: Selector where
  "defaultSelector = \<lparr>cursor = 0\<rparr>"

definition mix64 :: "u64 \<Rightarrow> u64" where
  "mix64 value =
    (let value = value XOR drop_bit 30 value;
         value = value * 0xbf58476d1ce4e5b9;
         value = value XOR drop_bit 27 value;
         value = value * 0x94d049bb133111eb
     in value XOR drop_bit 31 value)"

text \<open>
  \<open>atomic.Uint32.Add\<close> returns the new value; the whole addition is one atomic step, so
  concurrent handlers are handlers in some order.
\<close>

definition cursor_Add :: "Selector \<Rightarrow> u32 \<Rightarrow> u32 \<times> Selector" where
  "cursor_Add s d = (cursor s + d, s\<lparr>cursor := cursor s + d\<rparr>)"

text \<open>
  The handler, with the two moments at which it asks whether the invocation is cancelled. A
  \<open>nil\<close> response is the empty list.
\<close>

definition Selector_Handle ::
  "Selector \<Rightarrow> ModuleInvocation \<Rightarrow> byte list \<Rightarrow> moment \<Rightarrow> moment
   \<Rightarrow> (byte list \<times> ModuleStatus) \<times> Selector" where
  "Selector_Handle s invocation request t1 t2 =
    (if invStageID invocation \<noteq> StageSelect then (([], ModuleStatusInvalidRequest), s)
     else if Cancelled invocation t1 then (([], ModuleStatusCancelled), s)
     else if length request \<noteq> requestLen
       \<or> Uint32 (slice_at 0 4 request) \<noteq> requestMagic
       \<or> Uint16 (slice_at 4 2 request) \<noteq> wireVersion
       then (([], ModuleStatusInvalidRequest), s)
     else
      let mode = Uint16 (slice_at 6 2 request);
          candidateCount = Uint32 (slice_at 8 4 request)
      in if candidateCount = 0 \<or> (mode \<noteq> selectBalanced \<and> mode \<noteq> selectRandomized)
         then (([], ModuleStatusInvalidRequest), s)
         else
          let (selected, s) =
                (if mode = selectBalanced
                 then (case cursor_Add s 1 of (n, s) \<Rightarrow> ((n - 1) mod candidateCount, s))
                 else (ucast (mix64 (invTraceID invocation) mod ucast candidateCount), s))
          in if Cancelled invocation t2 then (([], ModuleStatusCancelled), s)
             else
              let response = replicate responseLen 0;
                  response = PutUint32 0 responseMagic response;
                  response = PutUint32 4 selected response
              in ((response, ModuleStatusOK), s))"

definition Handle ::
  "ModuleInvocation \<Rightarrow> byte list \<Rightarrow> moment \<Rightarrow> moment \<Rightarrow> Selector
   \<Rightarrow> (byte list \<times> ModuleStatus) \<times> Selector" where
  "Handle invocation request t1 t2 sel = Selector_Handle sel invocation request t1 t2"

section \<open>Requests and responses\<close>

definition route_request :: "u16 \<Rightarrow> u32 \<Rightarrow> byte list" where
  "route_request mode count = le32 requestMagic @ le16 wireVersion @ le16 mode @ le32 count"

definition route_response :: "u32 \<Rightarrow> byte list" where
  "route_response selected = le32 responseMagic @ le32 selected"

definition valid_request :: "u16 \<Rightarrow> u32 \<Rightarrow> bool" where
  "valid_request mode count \<longleftrightarrow> count \<noteq> 0 \<and> (mode = selectBalanced \<or> mode = selectRandomized)"

definition pick :: "u16 \<Rightarrow> u32 \<Rightarrow> u32 \<Rightarrow> u64 \<Rightarrow> u32" where
  "pick mode count cur trace =
    (if mode = selectBalanced then cur mod count else ucast (mix64 trace mod ucast count))"

lemma length_route_request [simp]: "length (route_request mode count) = requestLen"
  by (simp add: route_request_def go_const)

lemma length_route_response [simp]: "length (route_response i) = responseLen"
  by (simp add: route_response_def go_const)

lemma build_response:
  "PutUint32 4 i (PutUint32 0 responseMagic (replicate responseLen 0)) = route_response i"
  by (simp add: le_simps route_response_def go_const)

text \<open>A request the handler decodes is the encoding of its mode and count, and conversely.\<close>

lemma request_fields:
  "length r = requestLen \<and> Uint32 (slice_at 0 4 r) = requestMagic
     \<and> Uint16 (slice_at 4 2 r) = wireVersion
   \<longleftrightarrow> r = route_request (Uint16 (slice_at 6 2 r)) (Uint32 (slice_at 8 4 r))"
proof
  assume h: "length r = requestLen \<and> Uint32 (slice_at 0 4 r) = requestMagic
     \<and> Uint16 (slice_at 4 2 r) = wireVersion"
  then have len: "length r = 12" by (simp add: go_const)
  have "le32 requestMagic = slice_at 0 4 r" "le16 wireVersion = slice_at 4 2 r"
    using h len le32_take_read [of "slice_at 0 4 r"] le16_take_read [of "slice_at 4 2 r"]
    by simp_all
  moreover have "le16 (Uint16 (slice_at 6 2 r)) = slice_at 6 2 r"
    "le32 (Uint32 (slice_at 8 4 r)) = slice_at 8 4 r"
    using len by (simp_all add: le32_take_read le16_take_read)
  moreover have "r = take 4 r @ slice_at 4 2 r @ slice_at 6 2 r @ slice_at 8 4 r"
    using len by (simp add: slice_at_def flip: take_add append_assoc)
  ultimately show "r = route_request (Uint16 (slice_at 6 2 r)) (Uint32 (slice_at 8 4 r))"
    by (simp add: route_request_def slice_at_def)
next
  assume h: "r = route_request (Uint16 (slice_at 6 2 r)) (Uint32 (slice_at 8 4 r))"
  show "length r = requestLen \<and> Uint32 (slice_at 0 4 r) = requestMagic
     \<and> Uint16 (slice_at 4 2 r) = wireVersion"
    by (subst (1 2 3) h) (simp add: route_request_def slice_at_def go_const)
qed

text \<open>The three outcomes of the handler, by what it observes and what it is sent.\<close>

definition advance :: "u16 \<Rightarrow> Selector \<Rightarrow> Selector" where
  "advance mode s = (if mode = selectBalanced then s\<lparr>cursor := cursor s + 1\<rparr> else s)"

lemma Selector_Handle_valid:
  assumes "invStageID iv = StageSelect" and "\<not> Cancelled iv t1" and "valid_request mode count"
  shows "Selector_Handle s iv (route_request mode count) t1 t2 =
    (if Cancelled iv t2 then (([], ModuleStatusCancelled), advance mode s)
     else ((route_response (pick mode count (cursor s) (invTraceID iv)), ModuleStatusOK),
           advance mode s))"
proof -
  let ?r = "route_request mode count"
  have f: "Uint16 (slice_at 6 2 ?r) = mode" "Uint32 (slice_at 8 4 ?r) = count"
    by (simp_all add: route_request_def slice_at_def)
  then have g: "length ?r = requestLen \<and> Uint32 (slice_at 0 4 ?r) = requestMagic
     \<and> Uint16 (slice_at 4 2 ?r) = wireVersion"
    by (simp add: route_request_def slice_at_def go_const)
  have ok: "count \<noteq> 0" "mode = selectBalanced \<or> mode = selectRandomized"
    using assms(3) by (simp_all add: valid_request_def)
  show ?thesis
    using assms(1,2) ok(2)
    by (auto simp: Selector_Handle_def Let_def f g ok(1) build_response cursor_Add_def pick_def
        advance_def)
qed

lemma Selector_Handle_invalid:
  assumes "invStageID iv = StageSelect" and "\<not> Cancelled iv t1"
    and "\<nexists>mode count. valid_request mode count \<and> r = route_request mode count"
  shows "Selector_Handle s iv r t1 t2 = (([], ModuleStatusInvalidRequest), s)"
proof (rule ccontr)
  assume wrong: "\<not> ?thesis"
  let ?m = "Uint16 (slice_at 6 2 r)" and ?c = "Uint32 (slice_at 8 4 r)"
  have "length r = requestLen \<and> Uint32 (slice_at 0 4 r) = requestMagic
      \<and> Uint16 (slice_at 4 2 r) = wireVersion" and "valid_request ?m ?c"
    using wrong assms(1,2)
    by (auto simp: Selector_Handle_def Let_def valid_request_def split: if_splits)
  then have "valid_request ?m ?c \<and> r = route_request ?m ?c"
    using request_fields by blast
  with assms(3) show False by blast
qed

section \<open>Properties of one call\<close>

text \<open>C7: the handler answers exactly the well-formed requests of its stage. The status tells
  the first test that failed, in the order stage, cancellation, request, cancellation again; a
  non-OK answer has no body; an OK answer is the encoding of the index that the mode prescribes.
  The cursor moves by one if and only if a well-formed balanced request got past the first
  cancellation test, even when the answer is then withdrawn.\<close>

theorem selector_handle_spec:
  "Selector_Handle s iv r t1 t2 =
    (if invStageID iv \<noteq> StageSelect then (([], ModuleStatusInvalidRequest), s)
     else if Cancelled iv t1 then (([], ModuleStatusCancelled), s)
     else if \<exists>mode count. valid_request mode count \<and> r = route_request mode count then
       (let mode = Uint16 (drop 6 r); count = Uint32 (drop 8 r)
        in (if Cancelled iv t2 then ([], ModuleStatusCancelled)
            else (route_response (pick mode count (cursor s) (invTraceID iv)), ModuleStatusOK),
            advance mode s))
     else (([], ModuleStatusInvalidRequest), s))"
proof (cases "invStageID iv = StageSelect \<and> \<not> Cancelled iv t1")
  case False
  then show ?thesis by (auto simp: Selector_Handle_def)
next
  case active: True
  show ?thesis
  proof (cases "\<exists>mode count. valid_request mode count \<and> r = route_request mode count")
    case True
    then obtain mode count where r: "valid_request mode count" "r = route_request mode count"
      by blast
    have "Uint16 (drop 6 r) = mode" "Uint32 (drop 8 r) = count"
      by (simp_all add: r(2) route_request_def)
    with active True r show ?thesis
      by (auto simp: Selector_Handle_valid Let_def)
  next
    case False
    have "Selector_Handle s iv r t1 t2 = (([], ModuleStatusInvalidRequest), s)"
      using active by (intro Selector_Handle_invalid False) simp_all
    with active show ?thesis
      by (simp only: if_not_P [OF False]) simp
  qed
qed

lemma pick_less: "valid_request mode count \<Longrightarrow> pick mode count cur trace < count"
proof -
  assume "valid_request mode count"
  then have c: "0 < unat count" by (simp add: valid_request_def unat_gt_0)
  have "unat (mix64 trace mod ucast count) < unat count"
    using c by (simp add: unat_mod)
  moreover have "unat count < 2 ^ LENGTH(32)" by (rule unsigned_less)
  ultimately have "unat (ucast (mix64 trace mod ucast count) :: u32) < unat count"
    by (simp add: unsigned_ucast_eq take_bit_nat_eq_self)
  then show ?thesis
    using c by (simp add: pick_def word_less_nat_alt unat_mod)
qed

text \<open>C37: an index that the handler returns denotes a candidate: whenever the status is OK the
  request was well formed and the response is eight bytes, the response magic and an index
  below the candidate count of the request.\<close>

theorem selected_in_range:
  assumes "Selector_Handle s iv r t1 t2 = ((resp, ModuleStatusOK), s')"
  shows "\<exists>mode count i. valid_request mode count \<and> r = route_request mode count
     \<and> i < count \<and> resp = route_response i"
proof -
  have "ModuleStatusOK \<noteq> ModuleStatusInvalidRequest" "ModuleStatusOK \<noteq> ModuleStatusCancelled"
    by (simp_all add: go_const)
  with assms have "invStageID iv = StageSelect" "\<not> Cancelled iv t1"
    and "\<exists>mode count. valid_request mode count \<and> r = route_request mode count"
    using Selector_Handle_invalid [of iv t1 r s t2]
    by (auto simp: Selector_Handle_def split: if_splits)
  then obtain mode count where v: "valid_request mode count" "r = route_request mode count"
    by blast
  have "resp = route_response (pick mode count (cursor s) (invTraceID iv))"
    using assms v \<open>invStageID iv = StageSelect\<close> \<open>\<not> Cancelled iv t1\<close>
      \<open>ModuleStatusOK \<noteq> ModuleStatusCancelled\<close>
    by (simp add: Selector_Handle_valid split: if_splits)
  with v show ?thesis using pick_less by blast
qed

lemma selected_in_range_witness:
  "\<exists>mode count i. valid_request mode count \<and> route_request selectBalanced 3 = route_request mode count
     \<and> i < count \<and> route_response 1 = route_response i"
proof (rule selected_in_range)
  have "valid_request selectBalanced 3" by (simp add: valid_request_def)
  then show "Selector_Handle \<lparr>cursor = 7\<rparr>
      \<lparr>invStageID = 1, invDeadlineNS = 0, invTraceID = 5, invCancelled = None\<rparr>
      (route_request selectBalanced 3) (\<lambda>_. False, 0) (\<lambda>_. False, 0)
    = ((route_response 1, ModuleStatusOK), \<lparr>cursor = 8\<rparr>)"
    by (simp add: Selector_Handle_valid pick_def advance_def go_const)
qed

section \<open>Even distribution in randomized mode\<close>

lemma xor_zero_iff: "x XOR y = 0 \<longleftrightarrow> x = y" for x y :: "'a::len word"
  by (auto simp: bit_eq_iff bit_simps)

lemma xorshift_inj:
  fixes x y :: "'a::len word"
  assumes "0 < n" and "x XOR drop_bit n x = y XOR drop_bit n y"
  shows "x = y"
proof -
  define z where "z = x XOR y"
  have "z XOR drop_bit n z = (x XOR drop_bit n x) XOR (y XOR drop_bit n y)"
    by (simp add: z_def drop_bit_xor xor.assoc xor.left_commute)
  with assms(2) have "drop_bit n z = z"
    by (simp add: xor_zero_iff) 
  then have "unat z = unat z div 2 ^ n"
    by (metis drop_bit_nat_def unat_drop_bit_eq)
  moreover have "unat z div 2 ^ n < unat z" if "0 < unat z"
    using that assms(1) one_less_power [of "2 :: nat" n] by (intro div_less_dividend) simp_all
  ultimately have "unat z = 0" by fastforce
  then have "z = 0" by (simp add: word_unat_eq_iff)
  then show ?thesis by (simp add: z_def xor_zero_iff)
qed

lemma mult_cancel_inverse:
  fixes x y c d :: "'a::len word"
  assumes "c * d = 1" and "x * c = y * c"
  shows "x = y"
proof -
  have "x = (x * c) * d" by (simp add: mult.assoc assms(1))
  also have "\<dots> = (y * c) * d" by (simp add: assms(2))
  also have "\<dots> = y" by (simp add: mult.assoc assms(1))
  finally show ?thesis .
qed

lemma mix64_inj: "inj mix64"
proof (rule injI)
  fix x y assume eq: "mix64 x = mix64 y"
  let ?a = "\<lambda>v :: u64. v XOR drop_bit 30 v"
  let ?b = "\<lambda>v :: u64. ?a v * 0xbf58476d1ce4e5b9"
  let ?c = "\<lambda>v :: u64. ?b v XOR drop_bit 27 (?b v)"
  let ?d = "\<lambda>v :: u64. ?c v * 0x94d049bb133111eb"
  have "?d x = ?d y"
    by (rule xorshift_inj [of 31, OF _ eq [unfolded mix64_def Let_def]]) simp
  then have "?c x = ?c y"
    by (rule mult_cancel_inverse [of _ "0x319642b2d24d8ec3", rotated]) simp
  then have "?b x = ?b y"
    by (rule xorshift_inj [of 27, rotated]) simp
  then have "?a x = ?a y"
    by (rule mult_cancel_inverse [of _ "0x96de1b173f119089", rotated]) simp
  then show "x = y"
    by (rule xorshift_inj [of 30, rotated]) simp
qed

text \<open>How many numbers below \<open>n\<close> have remainder \<open>j\<close>.\<close>

lemma card_mod_class:
  fixes n k j :: nat
  assumes "j < k"
  shows "n div k \<le> card {i. i < n \<and> i mod k = j} \<and> card {i. i < n \<and> i mod k = j} \<le> Suc (n div k)
    \<and> (k dvd n \<longrightarrow> card {i. i < n \<and> i mod k = j} = n div k)"
proof -
  let ?Q = "{q. q * k + j < n}"
  have "{i. i < n \<and> i mod k = j} = (\<lambda>q. q * k + j) ` ?Q"
    using assms by (auto simp: image_iff) (metis div_mult_mod_eq)
  moreover have "inj_on (\<lambda>q. q * k + j) ?Q"
    using assms by (auto intro!: inj_onI)
  ultimately have card: "card {i. i < n \<and> i mod k = j} = card ?Q"
    by (simp add: card_image)
  have upper: "?Q \<subseteq> {..n div k}"
    using assms by (auto simp: less_eq_div_iff_mult_less_eq)
  have "q * k + j < n" if "q < n div k" for q
  proof -
    have "q * k + j < Suc q * k" using assms by simp
    also have "\<dots> \<le> (n div k) * k" using that by (intro mult_le_mono1) simp
    also have "\<dots> \<le> n" by (rule div_times_less_eq_dividend)
    finally show ?thesis .
  qed
  then have lower: "{..<n div k} \<subseteq> ?Q" by auto
  have fin: "finite ?Q" using upper finite_subset by blast
  have "?Q = {..<n div k}" if div: "k dvd n"
  proof -
    obtain c where "n = c * k" using div by (metis dvdE mult.commute)
    moreover have "q < c" if less: "q * k + j < c * k" for q
      using less by (metis add_lessD1 mult_less_cancel2)
    ultimately show ?thesis using lower assms by auto
  qed
  then show ?thesis
    using card_mono [OF fin lower] card_mono [OF finite_atMost upper] card by auto
qed

lemma card_word_mod_class:
  fixes j k :: nat
  assumes "j < k"
  shows "2 ^ 64 div k \<le> card {v :: u64. unat v mod k = j}
    \<and> card {v :: u64. unat v mod k = j} \<le> Suc (2 ^ 64 div k)
    \<and> (k dvd 2 ^ 64 \<longrightarrow> card {v :: u64. unat v mod k = j} = 2 ^ 64 div k)"
proof -
  have img: "unat ` {v :: u64. unat v mod k = j} = {i. i < 2 ^ LENGTH(64) \<and> i mod k = j}"
  proof (intro equalityI subsetI)
    fix i assume i: "i \<in> {i. i < 2 ^ LENGTH(64) \<and> i mod k = j}"
    then have "unat (of_nat i :: u64) = i"
      by (simp add: unat_of_nat)
    with i show "i \<in> unat ` {v :: u64. unat v mod k = j}"
      by (intro image_eqI [of _ _ "of_nat i"]) simp_all
  next
    fix i assume "i \<in> unat ` {v :: u64. unat v mod k = j}"
    then obtain v :: u64 where "i = unat v" and "unat v mod k = j" by blast
    moreover have "unat v < 2 ^ LENGTH(64)" by (rule unsigned_less)
    ultimately show "i \<in> {i. i < 2 ^ LENGTH(64) \<and> i mod k = j}" by simp
  qed
  have "inj_on unat {v :: u64. unat v mod k = j}"
    by (rule inj_onI) (simp add: word_unat_eq_iff)
  then have "card {v :: u64. unat v mod k = j} = card {i. i < 2 ^ LENGTH(64) \<and> i mod k = j}"
    unfolding img [symmetric] by (simp only: card_image)
  moreover have len: "LENGTH(64) = 64" by simp
  ultimately show ?thesis
    using card_mod_class [OF assms, of "2 ^ LENGTH(64)"] by (simp only: len simp_thms) blast
qed

lemma pick_randomized_iff:
  assumes "count \<noteq> 0" and "j < count"
  shows "pick selectRandomized count cur t = j \<longleftrightarrow> unat (mix64 t) mod unat count = unat j"
proof -
  have c: "0 < unat count" using assms(1) by (simp add: unat_gt_0)
  then have "unat (mix64 t) mod unat count < unat count" by simp
  moreover have "unat count < 2 ^ LENGTH(32)" by (rule unsigned_less)
  ultimately have "unat (pick selectRandomized count cur t) = unat (mix64 t) mod unat count"
    by (simp add: pick_def go_const unsigned_ucast_eq unat_mod take_bit_nat_eq_self)
  then show ?thesis by (simp add: word_unat_eq_iff)
qed

lemma route_response_inj [simp]: "route_response i = route_response j \<longleftrightarrow> i = j"
  by (simp add: route_response_def)

lemma card_mix64: "card {t. P (mix64 t)} = card {v. P v}"
proof -
  have "surj mix64"
    by (rule finite_UNIV_inj_surj [OF _ mix64_inj]) simp
  then have "card (mix64 -` {v. P v}) = card {v. P v}"
    by (intro card_vimage_inj mix64_inj) simp
  then show ?thesis by (simp add: vimage_def)
qed

text \<open>C38: randomized selection is even over trace identifiers. The mixing function is a
  permutation of the 64-bit words, so when the candidate count is a power of two each candidate of a
  request is chosen by exactly \<open>2^64 / count\<close> of all trace identifiers, and for any other count by
  the floor of that quotient or one more; the cursor plays no part.\<close>

theorem randomized_even:
  fixes s :: Selector
  assumes "invStageID iv = StageSelect" and "\<And>t. \<not> Cancelled (iv\<lparr>invTraceID := t\<rparr>) t1"
    and "\<And>t. \<not> Cancelled (iv\<lparr>invTraceID := t\<rparr>) t2" and "j < count"
  defines "n \<equiv> card {t. fst (Selector_Handle s (iv\<lparr>invTraceID := t\<rparr>)
            (route_request selectRandomized count) t1 t2) = (route_response j, ModuleStatusOK)}"
  shows "n \<in> {2 ^ 64 div unat count, Suc (2 ^ 64 div unat count)}
     \<and> ((\<exists>k. unat count = 2 ^ k) \<longrightarrow> n * unat count = 2 ^ 64)"
proof -
  have c: "count \<noteq> 0" and j: "unat j < unat count"
    using assms(4) by (auto simp: word_less_nat_alt)
  have v: "valid_request selectRandomized count" using c by (simp add: valid_request_def)
  have "fst (Selector_Handle s (iv\<lparr>invTraceID := t\<rparr>) (route_request selectRandomized count) t1 t2)
        = (route_response j, ModuleStatusOK) \<longleftrightarrow> unat (mix64 t) mod unat count = unat j" for t
    using assms(1-3) pick_randomized_iff [OF c assms(4)]
    by (simp add: Selector_Handle_valid [OF _ _ v])
  then have n: "n = card {v :: u64. unat v mod unat count = unat j}"
    using card_mix64 [of "\<lambda>v. unat v mod unat count = unat j"] by (simp only: n_def)
  have "unat count dvd 2 ^ 64" if "unat count = 2 ^ k" for k
  proof -
    have "unat count < 2 ^ 32" using unsigned_less [of count, where 'a = nat] by simp
    then have "k < 32" using power_less_imp_less_exp [of "2 :: nat" k 32] that by simp
    then show ?thesis unfolding that by (intro le_imp_power_dvd) simp
  qed
  then show ?thesis
    using card_word_mod_class [OF j] unfolding n by (auto dest: dvd_div_mult_self)
qed

lemma randomized_even_witness:
  "card {t. fst (Selector_Handle \<lparr>cursor = 9\<rparr>
          (\<lparr>invStageID = 1, invDeadlineNS = 0, invTraceID = 0, invCancelled = None\<rparr>\<lparr>invTraceID := t\<rparr>)
          (route_request selectRandomized 8) (\<lambda>_. False, 7) (\<lambda>_. False, 8))
        = (route_response 4, ModuleStatusOK)} * 8 = 2 ^ 64"
proof -
  let ?iv = "\<lparr>invStageID = 1, invDeadlineNS = 0, invTraceID = 0, invCancelled = None\<rparr>"
  have "\<exists>k. unat (8 :: u32) = 2 ^ k" by (rule exI [of _ 3]) simp
  with randomized_even [of ?iv "(\<lambda>_. False, 7)" "(\<lambda>_. False, 8)" 4 8 "\<lparr>cursor = 9\<rparr>"]
  show ?thesis by (simp add: go_const)
qed


section \<open>Round robin in balanced mode\<close>

type_synonym route_call = "ModuleInvocation \<times> byte list \<times> moment \<times> moment"

fun handle_all :: "Selector \<Rightarrow> route_call list \<Rightarrow> (byte list \<times> ModuleStatus) list \<times> Selector" where
  "handle_all s [] = ([], s)"
| "handle_all s ((iv, r, t1, t2) # cs) =
    (case Selector_Handle s iv r t1 t2 of (out, s') \<Rightarrow>
     case handle_all s' cs of (outs, s'') \<Rightarrow> (out # outs, s''))"

text \<open>A balanced call for \<open>count\<close> candidates that is never cancelled.\<close>

fun live_balanced :: "u32 \<Rightarrow> route_call \<Rightarrow> bool" where
  "live_balanced count (iv, r, t1, t2) \<longleftrightarrow>
     invStageID iv = StageSelect \<and> \<not> Cancelled iv t1 \<and> \<not> Cancelled iv t2
     \<and> r = route_request selectBalanced count"

definition index_out :: "u32 \<Rightarrow> byte list \<times> ModuleStatus" where
  "index_out i = (route_response i, ModuleStatusOK)"

lemma handle_all_balanced:
  assumes "count \<noteq> 0" and "\<forall>c \<in> set cs. live_balanced count c"
  shows "fst (handle_all s cs) =
    map (\<lambda>i. index_out ((cursor s + of_nat i) mod count)) [0..<length cs]"
  using assms(2)
proof (induction cs arbitrary: s)
  case Nil
  then show ?case by simp
next
  case (Cons c cs)
  obtain iv r t1 t2 where c: "c = (iv, r, t1, t2)" by (cases c)
  have v: "valid_request selectBalanced count" using assms(1) by (simp add: valid_request_def)
  have "Selector_Handle s iv r t1 t2 =
      (index_out (cursor s mod count), s\<lparr>cursor := cursor s + 1\<rparr>)"
    using Cons.prems c by (simp add: Selector_Handle_valid [OF _ _ v] index_out_def pick_def advance_def)
  moreover have "[0..<length (c # cs)] = 0 # map Suc [0..<length cs]"
    by (simp add: upt_conv_Cons map_Suc_upt del: upt_Suc)
  ultimately show ?case
    using Cons.IH [of "s\<lparr>cursor := cursor s + 1\<rparr>"] Cons.prems c
    by (cases "handle_all (s\<lparr>cursor := cursor s + 1\<rparr>) cs") (simp add: comp_def add.assoc del: upt_Suc)
qed

text \<open>A window of \<open>m * k\<close> consecutive numbers holds \<open>m\<close> of each remainder.\<close>

lemma card_mod_window:
  fixes a j k :: nat
  assumes "j < k"
  shows "card {i. a \<le> i \<and> i < a + k \<and> i mod k = j} = 1"
proof -
  have inj: "inj_on (\<lambda>i. i mod k) {a..<a + k}"
  proof (rule linorder_inj_onI')
    fix x y assume xy: "x \<in> {a..<a + k}" "y \<in> {a..<a + k}" "x < y"
    show "x mod k \<noteq> y mod k"
    proof
      assume "x mod k = y mod k"
      then have "k dvd y - x" using xy(3) mod_eq_dvd_iff_nat [of x y k] by simp
      with xy show False by (auto dest!: dvd_imp_le)
    qed
  qed
  have "(\<lambda>i. i mod k) ` {a..<a + k} = {..<k}"
    using assms card_image [OF inj] by (intro card_subset_eq) auto
  then obtain i where i: "i \<in> {a..<a + k}" "i mod k = j"
    using assms by (metis imageE lessThan_iff)
  then have "{i. a \<le> i \<and> i < a + k \<and> i mod k = j} = {i}"
    using inj_onD [OF inj] by auto
  then show ?thesis by simp
qed

lemma length_filter_window:
  fixes a j k m :: nat
  assumes "j < k"
  shows "length (filter (\<lambda>i. i mod k = j) [a..<a + m * k]) = m"
proof (induction m)
  case 0
  then show ?case by simp
next
  case (Suc m)
  let ?b = "a + m * k"
  have "{i. i mod k = j} \<inter> set [?b..<?b + k] = {i. ?b \<le> i \<and> i < ?b + k \<and> i mod k = j}"
    by auto
  then have "length (filter (\<lambda>i. i mod k = j) [?b..<?b + k]) = 1"
    by (simp only: distinct_length_filter distinct_upt card_mod_window [OF assms])
  moreover have "[a..<a + Suc m * k] = [a..<?b] @ [?b..<?b + k]"
    using upt_add_eq_append [of a ?b k] by (simp add: algebra_simps)
  ultimately show ?case using Suc.IH by simp
qed

lemma length_filter_any_window:
  fixes a j k n :: nat
  assumes "j < k"
  shows "n div k \<le> length (filter (\<lambda>i. i mod k = j) [a..<a + n])
    \<and> length (filter (\<lambda>i. i mod k = j) [a..<a + n]) \<le> n div k + (if k dvd n then 0 else 1)"
proof -
  let ?b = "a + n div k * k" and ?P = "\<lambda>i. i mod k = j"
  have "[a..<a + n] = [a..<?b] @ [?b..<?b + n mod k]"
    using upt_add_eq_append [of a ?b "n mod k"] by (simp add: add.assoc)
  then have len: "length (filter ?P [a..<a + n]) = n div k + length (filter ?P [?b..<?b + n mod k])"
    using length_filter_window [OF assms, of a "n div k"] by simp
  have sub: "{i. i mod k = j} \<inter> set [?b..<?b + n mod k] \<subseteq> {i. ?b \<le> i \<and> i < ?b + k \<and> i mod k = j}"
  proof
    fix i assume "i \<in> {i. i mod k = j} \<inter> set [?b..<?b + n mod k]"
    then have i: "i mod k = j" "?b \<le> i" "i < ?b + n mod k" by simp_all
    have "?b + n mod k < ?b + k"
      using assms by (intro add_strict_left_mono mod_less_divisor) simp
    with i(3) have "i < ?b + k" by (rule less_trans)
    with i(1,2) show "i \<in> {i. ?b \<le> i \<and> i < ?b + k \<and> i mod k = j}" by simp
  qed
  have fin: "finite {i. ?b \<le> i \<and> i < ?b + k \<and> i mod k = j}"
    by (rule finite_subset [of _ "{..<?b + k}"]) auto
  have "card ({i. i mod k = j} \<inter> set [?b..<?b + n mod k]) \<le> 1"
    using card_mono [OF fin sub] unfolding card_mod_window [OF assms] .
  then have "length (filter ?P [?b..<?b + n mod k]) \<le> 1"
    by (simp only: distinct_length_filter distinct_upt)
  moreover have "length (filter ?P [?b..<?b + n mod k]) = 0" if "k dvd n"
    using that by simp
  ultimately show ?thesis using len by simp
qed

lemma length_filter_mod:
  fixes a j k n :: nat
  assumes "j < k"
  shows "n div k \<le> length (filter (\<lambda>i. (a + i) mod k = j) [0..<n])
    \<and> length (filter (\<lambda>i. (a + i) mod k = j) [0..<n]) \<le> n div k + (if k dvd n then 0 else 1)"
proof -
  have "[a..<a + n] = map (\<lambda>i. a + i) [0..<n]"
    using map_add_upt [of a n] by (simp add: add.commute)
  then show ?thesis
    using length_filter_any_window [OF assms, of n a] by (simp add: filter_map comp_def)
qed

lemma count_list_map_filter: "count_list (map f xs) y = length (filter (\<lambda>x. f x = y) xs)"
  by (induction xs) auto

text \<open>
  The cursor wraps at \<open>2^32\<close>; a window of calls is regular when it does not cross the wrap,
  or when the candidate count is a divisor of \<open>2^32\<close>, so that the wrap does not show.
\<close>

definition regular_window :: "u32 \<Rightarrow> nat \<Rightarrow> u32 \<Rightarrow> bool" where
  "regular_window cur n count \<longleftrightarrow> unat cur + n \<le> 2 ^ 32 \<or> unat count dvd 2 ^ 32"

lemma regular_index:
  assumes "regular_window cur n count" and "i < n"
  shows "unat ((cur + of_nat i) mod count) = (unat cur + i) mod unat count"
proof -
  have w: "unat (cur + of_nat i) = (unat cur + i) mod 2 ^ 32"
    by (simp add: unat_word_ariths unat_of_nat mod_add_right_eq)
  show ?thesis
  proof (cases "unat cur + i < 2 ^ 32")
    case True
    then show ?thesis by (simp only: unat_mod w mod_less)
  next
    case False
    with assms have "unat count dvd 2 ^ 32"
      unfolding regular_window_def by linarith
    then show ?thesis by (simp only: unat_mod w mod_mod_cancel)
  qed
qed

text \<open>C27: balanced selection is fair. Over any run of \<open>n\<close> answered balanced requests each candidate is
  returned \<open>n / count\<close> times, rounded down or up, and exactly that often when the count divides \<open>n\<close>,
  from every cursor position, in whatever order the concurrent handlers took the cursor, provided
  the run does not cross the wrap of the 32-bit cursor or the candidate count divides \<open>2^32\<close>.\<close>

theorem balanced_fair:
  assumes "\<forall>c \<in> set cs. live_balanced count c" and "regular_window (cursor s) (length cs) count"
    and "j < count"
  defines "n \<equiv> count_list (fst (handle_all s cs)) (index_out j)"
  shows "n \<in> {length cs div unat count, Suc (length cs div unat count)}
     \<and> (unat count dvd length cs \<longrightarrow> n = length cs div unat count)"
proof -
  have c: "count \<noteq> 0" and j: "unat j < unat count"
    using assms(3) by (auto simp: word_less_nat_alt)
  have iff: "index_out ((cursor s + of_nat i) mod count) = index_out j
      \<longleftrightarrow> (unat (cursor s) + i) mod unat count = unat j" if "i < length cs" for i
    using regular_index [OF assms(2) that] by (auto simp: index_out_def word_unat_eq_iff)
  have "n = length (filter (\<lambda>i. index_out ((cursor s + of_nat i) mod count) = index_out j) [0..<length cs])"
    by (simp only: n_def handle_all_balanced [OF c assms(1)] count_list_map_filter)
  also have "filter (\<lambda>i. index_out ((cursor s + of_nat i) mod count) = index_out j) [0..<length cs]
      = filter (\<lambda>i. (unat (cursor s) + i) mod unat count = unat j) [0..<length cs]"
    using iff by (intro filter_cong) simp_all
  finally show ?thesis
    using length_filter_mod [OF j, of "length cs" "unat (cursor s)"] by (auto split: if_splits)
qed

lemma sample_live_balanced:
  "live_balanced count (\<lparr>invStageID = 1, invDeadlineNS = 0, invTraceID = t, invCancelled = None\<rparr>,
     route_request selectBalanced count, (\<lambda>_. False, 7), (\<lambda>_. False, 8))"
  by (simp add: go_const)

definition sample_calls :: "nat \<Rightarrow> u32 \<Rightarrow> route_call list" where
  "sample_calls n count = replicate n
     (\<lparr>invStageID = 1, invDeadlineNS = 0, invTraceID = 5, invCancelled = None\<rparr>,
      route_request selectBalanced count, (\<lambda>_. False, 7), (\<lambda>_. False, 8))"

lemma sample_calls_live: "\<forall>c \<in> set (sample_calls n count). live_balanced count c"
  using sample_live_balanced [of count 5] by (auto simp: sample_calls_def)

lemma balanced_fair_witness:
  "count_list (fst (handle_all \<lparr>cursor = 4294967295\<rparr> (sample_calls 12 4))) (index_out 3) = 3
   \<and> count_list (fst (handle_all \<lparr>cursor = 7\<rparr> (sample_calls 11 3))) (index_out 1) \<in> {3, 4}"
  using balanced_fair [OF sample_calls_live [of 12 4], of "\<lparr>cursor = 4294967295\<rparr>" 3]
    balanced_fair [OF sample_calls_live [of 11 3], of "\<lparr>cursor = 7\<rparr>" 1]
  by (simp add: sample_calls_def regular_window_def)

text \<open>handlers that run at the same time never collide. As long as no more balanced requests
  are answered than there are candidates, every one gets an index of its own, whatever the order
  in which they advanced the cursor (the cursor moves by one atomic addition per request).\<close>

theorem balanced_distinct:
  assumes "\<forall>c \<in> set cs. live_balanced count c" and "length cs \<le> unat count" and "cs \<noteq> []"
    and "regular_window (cursor s) (length cs) count"
  shows "distinct (fst (handle_all s cs)) \<and> length (fst (handle_all s cs)) = length cs"
proof -
  have c: "count \<noteq> 0" using assms(2,3) by auto
  have "inj_on (\<lambda>i. index_out ((cursor s + of_nat i) mod count)) (set [0..<length cs])"
  proof (rule linorder_inj_onI')
    fix x y assume xy: "x \<in> set [0..<length cs]" "y \<in> set [0..<length cs]" "x < y"
    show "index_out ((cursor s + of_nat x) mod count) \<noteq> index_out ((cursor s + of_nat y) mod count)"
    proof
      assume "index_out ((cursor s + of_nat x) mod count) = index_out ((cursor s + of_nat y) mod count)"
      then have "(unat (cursor s) + y) mod unat count = (unat (cursor s) + x) mod unat count"
        using regular_index [OF assms(4)] xy by (simp add: index_out_def word_unat_eq_iff)
      then have "unat count dvd y - x"
        using xy(3) mod_eq_dvd_iff_nat [of "unat (cursor s) + x" "unat (cursor s) + y"] by simp
      with xy assms(2) show False by (auto dest!: dvd_imp_le)
    qed
  qed
  then show ?thesis
    by (simp add: handle_all_balanced [OF c assms(1)] distinct_map)
qed

lemma balanced_distinct_witness:
  "distinct (fst (handle_all \<lparr>cursor = 100\<rparr> (sample_calls 64 64)))
   \<and> length (fst (handle_all \<lparr>cursor = 100\<rparr> (sample_calls 64 64))) = length (sample_calls 64 64)"
  by (rule balanced_distinct [OF sample_calls_live])
    (simp_all add: sample_calls_def regular_window_def)

text \<open>
  At the wrap of the cursor the round robin skips or repeats when the candidate count does not
  divide \<open>2^32\<close>: with three candidates the two calls around the wrap get the same one.
\<close>

lemma balanced_repeats_at_wrap:
  "fst (handle_all \<lparr>cursor = 4294967295\<rparr> (sample_calls 2 3)) = [index_out 0, index_out 0]"
proof -
  have "[0..<length (sample_calls 2 3)] = [0, 1]"
    by (simp add: sample_calls_def upt_rec)
  then show ?thesis
    by (subst handle_all_balanced [OF _ sample_calls_live]) simp_all
qed

end
