(* ===== verification/RoutingC.thy ===== *)
theory RoutingC
  imports Routing
begin

text \<open>
  The C adapter that the Go handler mirrors: the wire contract
  \<open>src/modules/routing/include/aimee/routing/module_api.h\<close> and the handler of
  \<open>src/modules/routing/module_adapter.c\<close>. A pointer argument is an option (\<open>None\<close> is \<open>NULL\<close>),
  a buffer a byte list, and an output parameter part of the result.

  The enumeration \<open>aimee_module_status_t\<close> and the function
  \<open>aimee_module_invocation_cancelled\<close> belong to a header outside the repository: the numbering
  of the statuses is the parameter \<open>code\<close>, applied to the status the Go constant of the same
  name stands for, and the two answers of the cancellation function are parameters too.
\<close>

unbundle bit_operations_syntax

section \<open>The wire contract\<close>

definition aimee_routing_put_u16 :: "nat \<Rightarrow> u16 \<Rightarrow> byte list \<Rightarrow> byte list" where
  "aimee_routing_put_u16 off value p = p[off := ucast value, off + 1 := ucast (drop_bit 8 value)]"

definition aimee_routing_put_u32 :: "nat \<Rightarrow> u32 \<Rightarrow> byte list \<Rightarrow> byte list" where
  "aimee_routing_put_u32 off value p =
     foldl (\<lambda>p i. p[off + i := ucast (drop_bit (8 * i) value)]) p [0..<4]"

definition aimee_routing_get_u16 :: "byte list \<Rightarrow> u16" where
  "aimee_routing_get_u16 p = ucast (p ! 0) OR push_bit 8 (ucast (p ! 1))"

definition aimee_routing_get_u32 :: "byte list \<Rightarrow> u32" where
  "aimee_routing_get_u32 p = foldl (\<lambda>value i. value OR push_bit (8 * i) (ucast (p ! i))) 0 [0..<4]"

definition aimee_routing_request_encode :: "u16 \<Rightarrow> u32 \<Rightarrow> byte list option \<Rightarrow> byte list option" where
  "aimee_routing_request_encode mode candidate_count output =
    (case output of None \<Rightarrow> None
     | Some p \<Rightarrow>
       if length p < requestLen \<or> candidate_count = 0
         \<or> (mode \<noteq> selectBalanced \<and> mode \<noteq> selectRandomized) then None
       else
        let p = aimee_routing_put_u32 0 requestMagic p;
            p = aimee_routing_put_u16 4 wireVersion p;
            p = aimee_routing_put_u16 6 mode p;
            p = aimee_routing_put_u32 8 candidate_count p
        in Some p)"

definition aimee_routing_request_decode :: "byte list option \<Rightarrow> (u16 \<times> u32) option" where
  "aimee_routing_request_decode input =
    (case input of None \<Rightarrow> None
     | Some p \<Rightarrow>
       if length p \<noteq> requestLen \<or> aimee_routing_get_u32 p \<noteq> requestMagic
         \<or> aimee_routing_get_u16 (drop 4 p) \<noteq> wireVersion then None
       else
        let decoded_mode = aimee_routing_get_u16 (drop 6 p);
            decoded_count = aimee_routing_get_u32 (drop 8 p)
        in if (decoded_mode \<noteq> selectBalanced \<and> decoded_mode \<noteq> selectRandomized)
             \<or> decoded_count = 0 then None
           else Some (decoded_mode, decoded_count))"

definition aimee_routing_response_encode :: "u32 \<Rightarrow> byte list option \<Rightarrow> nat \<Rightarrow> byte list option" where
  "aimee_routing_response_encode selected_index output output_len =
    (case output of None \<Rightarrow> None
     | Some p \<Rightarrow>
       if output_len < responseLen then None
       else Some (aimee_routing_put_u32 4 selected_index (aimee_routing_put_u32 0 responseMagic p)))"

definition aimee_routing_response_decode :: "byte list option \<Rightarrow> u32 \<Rightarrow> u32 option" where
  "aimee_routing_response_decode input candidate_count =
    (case input of None \<Rightarrow> None
     | Some p \<Rightarrow>
       if length p \<noteq> responseLen \<or> aimee_routing_get_u32 p \<noteq> responseMagic then None
       else let decoded = aimee_routing_get_u32 (drop 4 p)
            in if decoded \<ge> candidate_count then None else Some decoded)"

section \<open>The adapter\<close>

definition c_mix64 :: "u64 \<Rightarrow> u64" where
  "c_mix64 value =
    (let value = value XOR drop_bit 30 value;
         value = value * 0xbf58476d1ce4e5b9;
         value = value XOR drop_bit 27 value;
         value = value * 0x94d049bb133111eb
     in value XOR drop_bit 31 value)"

text \<open>
  The handler. The result is the status, the response buffer and the response length after the
  call, and the cursor. \<open>cancelled1\<close> and \<open>cancelled2\<close> are the answers of the two cancellation
  checks.
\<close>

record c_result =
  cStatus :: nat
  cResponse :: "byte list option"
  cLength :: "nat option"
  cCursor :: u32

definition aimee_module_handler ::
  "(ModuleStatus \<Rightarrow> nat) \<Rightarrow> bool \<Rightarrow> bool \<Rightarrow> u32 \<Rightarrow> ModuleInvocation option \<Rightarrow> byte list option
   \<Rightarrow> byte list option \<Rightarrow> nat \<Rightarrow> nat option \<Rightarrow> c_result" where
  "aimee_module_handler code cancelled1 cancelled2 balanced_cursor invocation request_body
      response_body response_capacity response_len =
    (let stop = (\<lambda>st cur. \<lparr>cStatus = code st, cResponse = response_body,
                    cLength = response_len, cCursor = cur\<rparr>)
     in case (invocation, response_len) of
          (Some iv, Some l) \<Rightarrow>
            if invStageID iv \<noteq> StageSelect then stop ModuleStatusInvalidRequest balanced_cursor
            else if cancelled1 then stop ModuleStatusCancelled balanced_cursor
            else
             (case aimee_routing_request_decode request_body of
                None \<Rightarrow> stop ModuleStatusInvalidRequest balanced_cursor
              | Some (mode, candidate_count) \<Rightarrow>
                  if response_capacity < responseLen
                  then stop ModuleStatusInvalidRequest balanced_cursor
                  else
                   let (selected, cur) =
                         (if mode = selectBalanced
                          then (balanced_cursor mod candidate_count, balanced_cursor + 1)
                          else (ucast (c_mix64 (invTraceID iv) mod ucast candidate_count),
                                balanced_cursor))
                   in if cancelled2 then stop ModuleStatusCancelled cur
                      else
                       (case aimee_routing_response_encode selected response_body response_capacity of
                          None \<Rightarrow> stop ModuleStatusInternal cur
                        | Some p \<Rightarrow> \<lparr>cStatus = code ModuleStatusOK, cResponse = Some p,
                                      cLength = Some responseLen, cCursor = cur\<rparr>))
        | _ \<Rightarrow> stop ModuleStatusInvalidRequest balanced_cursor)"

section \<open>Agreement of the byte primitives\<close>

lemma c_get_u16: "aimee_routing_get_u16 p = Uint16 p"
  by (simp add: aimee_routing_get_u16_def Uint16_def)

lemma upt_0_4: "[0..<4] = [0, 1, 2, 3]"
  by (simp add: upt_rec)

lemma c_get_u32: "aimee_routing_get_u32 p = Uint32 p"
  by (simp add: aimee_routing_get_u32_def Uint32_def upt_0_4 or.assoc)

lemma c_put_u16: "off + 2 \<le> length p \<Longrightarrow> aimee_routing_put_u16 off v p = PutUint16 off v p"
  by (simp add: aimee_routing_put_u16_def PutUint16_def le16_def put_at_Cons)

lemma c_put_u32: "off + 4 \<le> length p \<Longrightarrow> aimee_routing_put_u32 off v p = PutUint32 off v p"
  by (simp add: aimee_routing_put_u32_def PutUint32_def le32_def upt_0_4 put_at_Cons numeral_3_eq_3)

lemma c_request_decode:
  "aimee_routing_request_decode (Some r) =
    (if \<exists>mode count. valid_request mode count \<and> r = route_request mode count
     then Some (Uint16 (drop 6 r), Uint32 (drop 8 r)) else None)"
proof (cases "\<exists>mode count. valid_request mode count \<and> r = route_request mode count")
  case True
  then obtain mode count where v: "valid_request mode count" and r: "r = route_request mode count"
    by blast
  have "Uint32 r = requestMagic" "Uint16 (drop 4 r) = wireVersion" "Uint16 (drop 6 r) = mode"
    "Uint32 (drop 8 r) = count"
    by (simp_all add: r route_request_def)
  moreover have "length r = requestLen" by (simp add: r)
  ultimately show ?thesis
    using True v
    by (simp add: aimee_routing_request_decode_def c_get_u16 c_get_u32 Let_def valid_request_def)
next
  case False
  show ?thesis
  proof (rule ccontr)
    assume "\<not> ?thesis"
    with False have "length r = requestLen \<and> Uint32 (slice_at 0 4 r) = requestMagic
        \<and> Uint16 (slice_at 4 2 r) = wireVersion"
      and "valid_request (Uint16 (slice_at 6 2 r)) (Uint32 (slice_at 8 4 r))"
      by (auto simp: aimee_routing_request_decode_def c_get_u16 c_get_u32 Let_def slice_at_def
          valid_request_def split: if_splits)
    then show False using False request_fields by blast
  qed
qed

lemma c_response_encode:
  assumes "responseLen \<le> n" and "responseLen \<le> length p"
  shows "aimee_routing_response_encode i (Some p) n = Some (route_response i @ drop responseLen p)"
  using assms
  by (simp add: aimee_routing_response_encode_def c_put_u32 go_const le_simps route_response_def)

section \<open>Properties\<close>

text \<open>the client side of the contract agrees with the serving side. The request that the C
  client encodes for a mode and a count is the one both handlers decode to that mode and count,
  and it is refused exactly when the handlers would refuse it.\<close>

theorem request_encode_decode:
  assumes "length p = requestLen"
  shows "aimee_routing_request_encode mode count (Some p) =
      (if valid_request mode count then Some (route_request mode count) else None) \<and>
    (valid_request mode count \<longrightarrow>
      aimee_routing_request_decode (Some (route_request mode count)) = Some (mode, count))"
proof -
  have len: "length p = 12" using assms by (simp add: go_const)
  have "aimee_routing_put_u32 8 count (aimee_routing_put_u16 6 mode
      (aimee_routing_put_u16 4 wireVersion (aimee_routing_put_u32 0 requestMagic p)))
      = route_request mode count"
    using len by (simp add: c_put_u16 c_put_u32 le_simps route_request_def)
  moreover have "valid_request mode count \<longrightarrow>
      aimee_routing_request_decode (Some (route_request mode count)) = Some (mode, count)"
    by (auto simp: c_request_decode) (auto simp: route_request_def)
  ultimately show ?thesis
    using assms
    by (auto simp: aimee_routing_request_encode_def Let_def valid_request_def)
qed

lemma request_encode_decode_witness:
  "aimee_routing_request_encode 1 3 (Some (replicate 12 0)) = Some (route_request 1 3) \<and>
   aimee_routing_request_decode (Some (route_request 1 3)) = Some (1, 3)"
  using request_encode_decode [of "replicate 12 0" 1 3]
  by (simp add: go_const valid_request_def)

text \<open>C13: the Go handler is equivalent to the C adapter. On the same invocation, request, cursor and
  answers of the cancellation test, with the response buffer the runtime provides (at least eight
  bytes), both return the same status and leave the same cursor; when the status is OK the C
  adapter has written exactly the bytes of the Go response and set the length, otherwise it has
  left buffer and length alone.\<close>

theorem c_adapter_equivalent:
  assumes "responseLen \<le> cap" and "cap = length buf"
    and "Selector_Handle \<lparr>cursor = cur\<rparr> iv r t1 t2 = ((resp, st), s')"
  shows "aimee_module_handler code (Cancelled iv t1) (Cancelled iv t2) cur (Some iv) (Some r)
      (Some buf) cap (Some l) =
    \<lparr>cStatus = code st,
     cResponse = Some (if st = ModuleStatusOK then resp @ drop responseLen buf else buf),
     cLength = Some (if st = ModuleStatusOK then responseLen else l),
     cCursor = cursor s'\<rparr>"
proof -
  have ne: "ModuleStatusInvalidRequest \<noteq> ModuleStatusOK" "ModuleStatusCancelled \<noteq> ModuleStatusOK"
    by (simp_all add: go_const)
  have mix: "c_mix64 v = mix64 v" for v by (simp add: c_mix64_def mix64_def)
  show ?thesis
  proof (cases "invStageID iv = StageSelect \<and> \<not> Cancelled iv t1 \<and>
      (\<exists>mode count. valid_request mode count \<and> r = route_request mode count)")
    case True
    then obtain mode count where v: "valid_request mode count" and r: "r = route_request mode count"
      by blast
    have dec: "aimee_routing_request_decode (Some r) = Some (mode, count)"
      using True by (simp add: c_request_decode) (simp add: r route_request_def)
    show ?thesis
      using True assms v
      by (auto simp: aimee_module_handler_def Let_def dec c_response_encode mix pick_def advance_def
          Selector_Handle_valid [OF _ _ v, folded r] ne split: if_splits)
  next
    case False
    then show ?thesis
      using assms(3) ne unfolding selector_handle_spec
      by (auto simp: aimee_module_handler_def Let_def c_request_decode split: if_splits)
  qed
qed

lemma c_adapter_equivalent_witness:
  "aimee_module_handler unat False False 7
      (Some \<lparr>invStageID = 1, invDeadlineNS = 0, invTraceID = 5, invCancelled = None\<rparr>)
      (Some (route_request 1 3)) (Some (replicate 8 0)) 8 (Some 0)
    = \<lparr>cStatus = 0, cResponse = Some (route_response 1), cLength = Some 8, cCursor = 8\<rparr>"
proof -
  let ?iv = "\<lparr>invStageID = 1, invDeadlineNS = 0, invTraceID = 5, invCancelled = None\<rparr>"
  have "Selector_Handle \<lparr>cursor = 7\<rparr> ?iv (route_request 1 3) (\<lambda>_. False, 1) (\<lambda>_. False, 2)
      = ((route_response 1, ModuleStatusOK), \<lparr>cursor = 8\<rparr>)"
    by (subst Selector_Handle_valid)
      (simp_all add: valid_request_def go_const pick_def advance_def)
  from c_adapter_equivalent [OF _ _ this, of 8 "replicate 8 0" unat 0]
  show ?thesis by (simp add: go_const)
qed

end
