(* ===== verification/Wire.thy ===== *)
theory Wire
  imports LittleEndian
begin

text \<open>
  The frame codec, \<open>server-go/bus/wire.go\<close>: the 64-byte event header, the rules a frame has
  to meet (\<open>Validate\<close>), its encoder and decoder, and the bounds of a payload reference
  (\<open>CheckPlacement\<close>). An abstract description of a well-formed frame is stated beside the
  code's chain of tests and proved equivalent to it.
\<close>

unbundle bit_operations_syntax

section \<open>Constants\<close>

definition WireMagic :: u32 where [go_const]: "WireMagic = 0x30535542"
definition WireVersion :: u16 where [go_const]: "WireVersion = 3"
definition HdrLen :: nat where [go_const]: "HdrLen = 64"
definition MaxPayload :: u32 where [go_const]: "MaxPayload = push_bit 20 1"

definition FInline :: u16 where [go_const]: "FInline = 0x0001"
definition FArena :: u16 where [go_const]: "FArena = 0x0002"
definition FNotification :: u16 where [go_const]: "FNotification = 0x0004"
definition FRequest :: u16 where [go_const]: "FRequest = 0x0008"
definition FReply :: u16 where [go_const]: "FReply = 0x0010"
definition FCancel :: u16 where [go_const]: "FCancel = 0x0020"
definition FControl :: u16 where [go_const]: "FControl = 0x0040"
definition FMore :: u16 where [go_const]: "FMore = 0x0080"

definition fPlacementMask :: u16 where [go_const]: "fPlacementMask = FInline OR FArena"
definition fPatternMask :: u16 where
  [go_const]: "fPatternMask = FNotification OR FRequest OR FReply OR FCancel"
definition fKnownMask :: u16 where
  [go_const]: "fKnownMask = fPlacementMask OR fPatternMask OR FControl OR FMore"

definition KindAttachRequest :: u32 where [go_const]: "KindAttachRequest = 1"
definition KindAttachReply :: u32 where [go_const]: "KindAttachReply = 2"
definition KindError :: u32 where [go_const]: "KindError = 3"
definition KindCapabilityAbsent :: u32 where [go_const]: "KindCapabilityAbsent = 4"
definition KindOverflow :: u32 where [go_const]: "KindOverflow = 5"
definition KindProducerReaped :: u32 where [go_const]: "KindProducerReaped = 6"
definition KindEpochChange :: u32 where [go_const]: "KindEpochChange = 7"
definition KindModuleBase :: u32 where [go_const]: "KindModuleBase = 256"

section \<open>Frames and results\<close>

record Frame =
  fHdrFlags :: u16
  fWireVersion :: u16
  fEventKind :: u32
  fPrincipalRef :: u32
  fCorrelationID :: u64
  fSeq :: u64
  fLogicalTS :: u64
  fPayloadRef :: u64
  fPayloadLen :: u32
  fSrcHandle :: u32
  fDstHandle :: u32
  fGeneration :: u32

text \<open>\<open>Result\<close> is an \<open>int\<close> with named values; \<open>OtherResult\<close> stands for the unnamed ones, which no function of
  the package returns.\<close>

datatype Result =
    OK | ErrShort | ErrMagic | ErrVersion | ErrFlags | ErrPayloadLen | ErrCorrelation | ErrReserved
  | OtherResult int

fun Result_String :: "Result \<Rightarrow> string" where
  "Result_String OK = ''OK''"
| "Result_String ErrShort = ''ERR_SHORT''"
| "Result_String ErrMagic = ''ERR_MAGIC''"
| "Result_String ErrVersion = ''ERR_VERSION''"
| "Result_String ErrFlags = ''ERR_FLAGS''"
| "Result_String ErrPayloadLen = ''ERR_PAYLOAD_LEN''"
| "Result_String ErrCorrelation = ''ERR_CORRELATION''"
| "Result_String ErrReserved = ''ERR_RESERVED''"
| "Result_String (OtherResult _) = ''ERR_UNKNOWN''"

section \<open>Validation\<close>

definition exactlyOne :: "u16 \<Rightarrow> bool" where
  "exactlyOne v \<longleftrightarrow> v \<noteq> 0 \<and> v AND (v - 1) = 0"

definition Validate :: "Frame \<Rightarrow> Result" where
  "Validate f =
    (if fWireVersion f \<noteq> WireVersion then ErrVersion
     else if fHdrFlags f AND NOT fKnownMask \<noteq> 0 then ErrFlags
     else if \<not> exactlyOne (fHdrFlags f AND fPatternMask) then ErrFlags
     else
      let placement = fHdrFlags f AND fPlacementMask;
          checked =
            (if fPayloadLen f > 0 then
               (if \<not> exactlyOne placement then ErrFlags
                else if fPayloadLen f > MaxPayload then ErrPayloadLen
                else OK)
             else
               (if placement \<noteq> 0 then ErrFlags
                else if fPayloadRef f \<noteq> 0 then ErrPayloadLen
                else OK))
      in if checked \<noteq> OK then checked
         else if fHdrFlags f AND FMore \<noteq> 0 \<and>
           (let pattern = fHdrFlags f AND fPatternMask
            in (pattern \<noteq> FRequest \<and> pattern \<noteq> FReply) \<or> placement \<noteq> FInline
               \<or> fPayloadLen f = 0) then ErrFlags
         else if fHdrFlags f AND FArena = 0 \<and> fGeneration f \<noteq> 0 then ErrFlags
         else if fHdrFlags f AND FNotification \<noteq> 0 then
           (if fCorrelationID f \<noteq> 0 then ErrCorrelation else OK)
         else if fCorrelationID f = 0 then ErrCorrelation
         else OK)"

section \<open>Encoding and decoding\<close>

definition Frame_Encode :: "Frame \<Rightarrow> byte list \<Rightarrow> nat \<times> byte list" where
  "Frame_Encode f out =
    (if length out < HdrLen then (0, out)
     else if Validate f \<noteq> OK then (0, out)
     else
      let b = put_at 0 (replicate HdrLen 0) out;
          b = PutUint32 0 WireMagic b;
          b = PutUint16 4 (fHdrFlags f) b;
          b = PutUint16 6 (fWireVersion f) b;
          b = PutUint32 8 (fEventKind f) b;
          b = PutUint32 12 (fPrincipalRef f) b;
          b = PutUint64 16 (fCorrelationID f) b;
          b = PutUint64 24 (fSeq f) b;
          b = PutUint64 32 (fLogicalTS f) b;
          b = PutUint64 40 (fPayloadRef f) b;
          b = PutUint32 48 (fPayloadLen f) b;
          b = PutUint32 52 (fSrcHandle f) b;
          b = PutUint32 56 (fDstHandle f) b;
          b = PutUint32 60 (fGeneration f) b
      in (HdrLen, b))"

text \<open>The frame the decoder reads field by field, before it is validated.\<close>

definition read_frame :: "byte list \<Rightarrow> Frame" where
  "read_frame b =
    \<lparr>fHdrFlags = Uint16 (drop 4 b), fWireVersion = Uint16 (drop 6 b),
     fEventKind = Uint32 (drop 8 b), fPrincipalRef = Uint32 (drop 12 b),
     fCorrelationID = Uint64 (drop 16 b), fSeq = Uint64 (drop 24 b),
     fLogicalTS = Uint64 (drop 32 b), fPayloadRef = Uint64 (drop 40 b),
     fPayloadLen = Uint32 (drop 48 b), fSrcHandle = Uint32 (drop 52 b),
     fDstHandle = Uint32 (drop 56 b), fGeneration = Uint32 (drop 60 b)\<rparr>"

text \<open>The second component is the caller's \<open>*out\<close> after the call.\<close>

definition Decode :: "byte list \<Rightarrow> Frame \<Rightarrow> Result \<times> Frame" where
  "Decode b out =
    (if length b < HdrLen then (ErrShort, out)
     else if Uint32 (drop 0 b) \<noteq> WireMagic then (ErrMagic, out)
     else let f = read_frame b; r = Validate f
          in if r \<noteq> OK then (r, out) else (OK, f))"

definition CheckPlacement :: "Frame \<Rightarrow> u32 \<Rightarrow> u64 \<Rightarrow> Result" where
  "CheckPlacement f slotSize arenaSize =
    (let r = Validate f
     in if r \<noteq> OK then r
        else if fPayloadLen f = 0 then OK
        else if fHdrFlags f AND FInline \<noteq> 0 then
          (let stop = fPayloadRef f + ucast (fPayloadLen f)
           in if stop < fPayloadRef f then ErrPayloadLen
              else if fPayloadRef f < of_nat HdrLen \<or> stop > ucast slotSize then ErrPayloadLen
              else OK)
        else if ucast (fPayloadLen f) > arenaSize then ErrPayloadLen
        else OK)"

section \<open>What the encoder writes\<close>

definition frame_header :: "Frame \<Rightarrow> byte list" where
  "frame_header f =
     le32 WireMagic @ le16 (fHdrFlags f) @ le16 (fWireVersion f) @ le32 (fEventKind f)
     @ le32 (fPrincipalRef f) @ le64 (fCorrelationID f) @ le64 (fSeq f) @ le64 (fLogicalTS f)
     @ le64 (fPayloadRef f) @ le32 (fPayloadLen f) @ le32 (fSrcHandle f) @ le32 (fDstHandle f)
     @ le32 (fGeneration f)"

lemma length_frame_header [simp]: "length (frame_header f) = HdrLen"
  by (simp add: frame_header_def go_const)

lemma Frame_Encode_eq:
  assumes "HdrLen \<le> length out" and "Validate f = OK"
  shows "Frame_Encode f out = (HdrLen, frame_header f @ drop HdrLen out)"
proof -
  have "put_at 0 (replicate HdrLen 0) out = replicate HdrLen 0 @ drop HdrLen out"
    by (simp add: put_at_front)
  then show ?thesis
    using assms unfolding Frame_Encode_def frame_header_def
    by (simp add: Let_def le_simps HdrLen_def)
qed

lemma read_frame_header: "read_frame (frame_header f @ rest) = f"
  by (simp add: read_frame_def frame_header_def)

lemma Decode_header:
  assumes "Validate f = OK"
  shows "Decode (frame_header f @ rest) out = (OK, f)"
  using assms by (simp add: Decode_def read_frame_header) (simp add: frame_header_def)

text \<open>The bytes of an accepted buffer are the encoding of the frame read from it.\<close>

lemma frame_header_read:
  assumes "HdrLen \<le> length b" and "Uint32 b = WireMagic"
  shows "frame_header (read_frame b) = take HdrLen b"
proof -
  have len: "64 \<le> length b" using assms(1) by (simp add: go_const)
  have reads: "le32 (Uint32 (drop n b)) = slice_at n 4 b" if "n + 4 \<le> 64" for n
    using that len by (simp add: le32_take_read slice_at_def)
  have reads16: "le16 (Uint16 (drop n b)) = slice_at n 2 b" if "n + 2 \<le> 64" for n
    using that len by (simp add: le16_take_read slice_at_def)
  have reads64: "le64 (Uint64 (drop n b)) = slice_at n 8 b" if "n + 8 \<le> 64" for n
    using that len by (simp add: le64_take_read slice_at_def)
  have join: "take n b @ slice_at n k b = take (n + k) b" for n k
    by (simp add: slice_at_def take_add)
  have join_more: "take n b @ slice_at n k b @ rest = take (n + k) b @ rest" for n k rest
    by (simp add: slice_at_def take_add)
  have "le32 WireMagic = take 4 b"
    using assms(2) le32_take_read [of b] len by simp
  then show ?thesis
    by (simp add: frame_header_def read_frame_def reads reads16 reads64 join join_more go_const)
qed

section \<open>Well-formed frames\<close>

text \<open>
  The logical view of a header: a message pattern, where the payload is, and the two flag
  bits that are independent of both. \<open>flags_of\<close> is the flag word of such a view.
\<close>

datatype pattern = Notification | Request | Reply | Cancel
datatype placement = NoPayload | Inline | Arena

fun pattern_bit :: "pattern \<Rightarrow> u16" where
  "pattern_bit Notification = FNotification"
| "pattern_bit Request = FRequest"
| "pattern_bit Reply = FReply"
| "pattern_bit Cancel = FCancel"

fun placement_bit :: "placement \<Rightarrow> u16" where
  "placement_bit NoPayload = 0"
| "placement_bit Inline = FInline"
| "placement_bit Arena = FArena"

definition flags_of :: "pattern \<Rightarrow> placement \<Rightarrow> bool \<Rightarrow> bool \<Rightarrow> u16" where
  "flags_of p pl ctl has_more =
     pattern_bit p OR placement_bit pl OR (if ctl then FControl else 0)
     OR (if has_more then FMore else 0)"

definition frame_ok :: "pattern \<Rightarrow> placement \<Rightarrow> bool \<Rightarrow> bool \<Rightarrow> Frame \<Rightarrow> bool" where
  "frame_ok p pl ctl has_more f \<longleftrightarrow>
     fWireVersion f = WireVersion \<and>
     fHdrFlags f = flags_of p pl ctl has_more \<and>
     (fPayloadLen f = 0 \<longleftrightarrow> pl = NoPayload) \<and>
     fPayloadLen f \<le> MaxPayload \<and>
     (pl = NoPayload \<longrightarrow> fPayloadRef f = 0) \<and>
     (has_more \<longrightarrow> pl = Inline \<and> (p = Request \<or> p = Reply)) \<and>
     (fGeneration f \<noteq> 0 \<longrightarrow> pl = Arena) \<and>
     (fCorrelationID f = 0 \<longleftrightarrow> p = Notification)"

lemma exactlyOne_iff: "exactlyOne v \<longleftrightarrow> (\<exists>k < 16. v = 2 ^ k)"
  using word_power_of_two_iff [of v] by (simp add: exactlyOne_def)

lemma exactlyOne_pattern:
  "exactlyOne (v AND fPatternMask) \<longleftrightarrow> (\<exists>p. v AND fPatternMask = pattern_bit p)"
proof
  assume "exactlyOne (v AND fPatternMask)"
  then obtain k where k: "k < 16" "v AND fPatternMask = 2 ^ k"
    by (auto simp: exactlyOne_iff)
  then have "bit (v AND fPatternMask) k" by (simp add: bit_simps)
  then have "bit (60 :: u16) k" by (simp add: bit_simps go_const)
  with k(1) have "k \<in> {2, 3, 4, 5}"
    by (auto simp: less_Suc_eq numeral_eq_Suc)
  then have "(2 :: u16) ^ k \<in> {pattern_bit Notification, pattern_bit Request,
      pattern_bit Reply, pattern_bit Cancel}"
    by (auto simp: go_const)
  with k(2) show "\<exists>p. v AND fPatternMask = pattern_bit p"
    by (simp only: insert_iff empty_iff) blast
next
  assume "\<exists>p. v AND fPatternMask = pattern_bit p"
  then obtain p where "v AND fPatternMask = pattern_bit p" by blast
  then show "exactlyOne (v AND fPatternMask)"
    by (cases p) (simp_all add: exactlyOne_def go_const)
qed

lemma exactlyOne_placement:
  "exactlyOne (v AND fPlacementMask) \<longleftrightarrow> v AND fPlacementMask = FInline \<or> v AND fPlacementMask = FArena"
proof
  assume "exactlyOne (v AND fPlacementMask)"
  then obtain k where k: "k < 16" "v AND fPlacementMask = 2 ^ k"
    by (auto simp: exactlyOne_iff)
  then have "bit (v AND fPlacementMask) k" by (simp add: bit_simps)
  then have "bit (3 :: u16) k" by (simp add: bit_simps go_const)
  with k(1) have "k \<in> {0, 1}"
    by (auto simp: less_Suc_eq numeral_eq_Suc)
  with k(2) show "v AND fPlacementMask = FInline \<or> v AND fPlacementMask = FArena"
    by (auto simp: go_const)
next
  assume "v AND fPlacementMask = FInline \<or> v AND fPlacementMask = FArena"
  then show "exactlyOne (v AND fPlacementMask)"
    by (auto simp: exactlyOne_def go_const)
qed

text \<open>The flag word is the union of its four parts.\<close>

lemma flags_split:
  assumes "v AND NOT fKnownMask = 0"
  shows "v = (v AND fPatternMask) OR (v AND fPlacementMask) OR (v AND FControl) OR (v AND FMore)"
proof -
  have "v = (v AND fKnownMask) OR (v AND NOT fKnownMask)"
    by (auto simp: bit_simps intro!: bit_word_eqI)
  also have "\<dots> = v AND fKnownMask" using assms by simp
  also have "\<dots> = (v AND fPatternMask) OR (v AND fPlacementMask) OR (v AND FControl) OR (v AND FMore)"
    by (auto simp: fKnownMask_def bit_simps intro!: bit_word_eqI)
  finally show ?thesis .
qed

lemma and_single_bit: "v AND FControl = 0 \<or> v AND FControl = FControl"
  "v AND FMore = 0 \<or> v AND FMore = FMore"
proof -
  have "v AND 2 ^ k = 0 \<or> v AND 2 ^ k = 2 ^ k" for k and v :: u16
    by (cases "bit v k") (auto simp: bit_simps intro!: bit_word_eqI)
  from this [of v 6] this [of v 7]
  show "v AND FControl = 0 \<or> v AND FControl = FControl"
    "v AND FMore = 0 \<or> v AND FMore = FMore"
    by (simp_all add: go_const)
qed

text \<open>The flags of a view, read back by the masks.\<close>

lemma flags_of_masks [simp]:
  "flags_of p pl ctl has_more AND NOT fKnownMask = 0"
  "flags_of p pl ctl has_more AND fPatternMask = pattern_bit p"
  "flags_of p pl ctl has_more AND fPlacementMask = placement_bit pl"
  "flags_of p pl ctl has_more AND FMore = (if has_more then FMore else 0)"
  "flags_of p pl ctl has_more AND FControl = (if ctl then FControl else 0)"
  "flags_of p pl ctl has_more AND FInline = 0 \<longleftrightarrow> pl \<noteq> Inline"
  "flags_of p pl ctl has_more AND FArena = 0 \<longleftrightarrow> pl \<noteq> Arena"
  "flags_of p pl ctl has_more AND FNotification = 0 \<longleftrightarrow> p \<noteq> Notification"
  "flags_of p pl ctl has_more AND FRequest = 0 \<longleftrightarrow> p \<noteq> Request"
  "flags_of p pl ctl has_more AND FCancel = 0 \<longleftrightarrow> p \<noteq> Cancel"
  by (cases p; cases pl; cases ctl; cases has_more; simp add: flags_of_def go_const)+

lemma pattern_bit_inj [simp]: "pattern_bit p = pattern_bit q \<longleftrightarrow> p = q"
  by (cases p; cases q) (simp_all add: go_const)

lemma pattern_bit_eq [simp]:
  "pattern_bit p = FRequest \<longleftrightarrow> p = Request" "pattern_bit p = FReply \<longleftrightarrow> p = Reply"
  by (cases p; simp add: go_const)+

lemma placement_bit_eq [simp]:
  "placement_bit pl = 0 \<longleftrightarrow> pl = NoPayload" "placement_bit pl = FInline \<longleftrightarrow> pl = Inline"
  by (cases pl; simp add: go_const)+

lemma flag_consts [simp]:
  "FInline \<noteq> 0" "FArena \<noteq> FInline" "FArena \<noteq> 0" "FMore \<noteq> 0" "\<not> exactlyOne 0" "exactlyOne FInline"
  "exactlyOne FArena" "exactlyOne (pattern_bit p)"
  by (simp_all add: exactlyOne_def go_const) (cases p; simp add: go_const)

text \<open>On the flags of a view the chain of tests is the list of conditions of \<open>frame_ok\<close>.\<close>

lemma Validate_flags_of:
  assumes "fHdrFlags f = flags_of p pl ctl has_more"
  shows "Validate f = OK \<longleftrightarrow> frame_ok p pl ctl has_more f"
  unfolding Validate_def frame_ok_def Let_def assms
  by (cases "fPayloadLen f = 0"; cases pl; cases has_more)
    (auto simp: word_neq_0_conv [symmetric] not_less)

lemma flags_of_exists:
  assumes "v AND NOT fKnownMask = 0" and "exactlyOne (v AND fPatternMask)"
    and "v AND fPlacementMask = 0 \<or> exactlyOne (v AND fPlacementMask)"
  shows "\<exists>p pl ctl has_more. v = flags_of p pl ctl has_more"
proof -
  obtain p where p: "v AND fPatternMask = pattern_bit p"
    using assms(2) exactlyOne_pattern by blast
  obtain pl where pl: "v AND fPlacementMask = placement_bit pl"
    using assms(3) exactlyOne_placement placement_bit.simps by metis
  have "v = flags_of p pl (v AND FControl = FControl) (v AND FMore = FMore)"
    using flags_split [OF assms(1)] and_single_bit [of v] p pl
    by (auto simp: flags_of_def)
  then show ?thesis by blast
qed

lemma Validate_OK_iff: "Validate f = OK \<longleftrightarrow> (\<exists>p pl ctl has_more. frame_ok p pl ctl has_more f)"
proof
  assume ok: "Validate f = OK"
  then have "\<exists>p pl ctl has_more. fHdrFlags f = flags_of p pl ctl has_more"
    by (intro flags_of_exists) (auto simp: Validate_def Let_def split: if_splits)
  with ok show "\<exists>p pl ctl has_more. frame_ok p pl ctl has_more f"
    using Validate_flags_of by blast
next
  assume "\<exists>p pl ctl has_more. frame_ok p pl ctl has_more f"
  then show "Validate f = OK"
    using Validate_flags_of by (auto simp: frame_ok_def)
qed

section \<open>The frame codec as a header codec\<close>

definition zero_frame :: Frame where
  "zero_frame = \<lparr>fHdrFlags = 0, fWireVersion = 0, fEventKind = 0, fPrincipalRef = 0,
     fCorrelationID = 0, fSeq = 0, fLogicalTS = 0, fPayloadRef = 0, fPayloadLen = 0,
     fSrcHandle = 0, fDstHandle = 0, fGeneration = 0\<rparr>"

definition decode_frame :: "byte list \<Rightarrow> Frame option" where
  "decode_frame b = (case Decode b zero_frame of (r, f) \<Rightarrow> if r = OK then Some f else None)"

lemma Decode_cases:
  "Decode b out = (OK, f) \<longleftrightarrow>
     HdrLen \<le> length b \<and> Uint32 b = WireMagic \<and> f = read_frame b \<and> Validate f = OK"
  by (auto simp: Decode_def Let_def)

lemma decode_frame_Some: "decode_frame b = Some f \<longleftrightarrow> Decode b out = (OK, f)"
  unfolding Decode_cases decode_frame_def
  by (auto simp: Decode_def Let_def split: prod.splits if_splits)

interpretation frame_codec: header_codec "\<lambda>f. Validate f = OK" frame_header decode_frame HdrLen
  "\<lambda>_. 0"
proof unfold_locales
  show "length (frame_header f) = HdrLen" for f by simp
  show "decode_frame (frame_header f @ rest) = Some f" if "Validate f = OK" for f rest
    using Decode_header [OF that] decode_frame_Some by blast
  show "Validate f = OK" if "decode_frame b = Some f" for b f
    using that decode_frame_Some [of b f] Decode_cases by blast
  show "take HdrLen b = frame_header f" if "decode_frame b = Some f" for b f
  proof -
    have "HdrLen \<le> length b \<and> Uint32 b = WireMagic \<and> f = read_frame b"
      using that decode_frame_Some [of b f] Decode_cases by blast
    then show ?thesis using frame_header_read by simp
  qed
  show "HdrLen + 0 \<le> length b" if "decode_frame b = Some f" for b f
    using that decode_frame_Some [of b f] Decode_cases by simp
qed

section \<open>Properties\<close>

text \<open>the encoder and the decoder agree. A frame that meets the rules is written into any
  buffer of at least 64 bytes, only the first 64 bytes of the buffer change, and decoding the
  buffer gives the same frame back.\<close>

theorem frame_roundtrip:
  assumes "Validate f = OK" and "HdrLen \<le> length out"
  shows "\<exists>b. Frame_Encode f out = (HdrLen, b) \<and> drop HdrLen b = drop HdrLen out
           \<and> Decode b g = (OK, f)"
  using assms by (simp add: Frame_Encode_eq Decode_header)

definition sample_frame :: Frame where
  "sample_frame = zero_frame\<lparr>fHdrFlags := 9, fWireVersion := 3, fEventKind := 6401,
     fCorrelationID := 7, fPayloadRef := 64, fPayloadLen := 52\<rparr>"

lemma sample_frame_valid: "Validate sample_frame = OK"
  by (simp add: sample_frame_def zero_frame_def Validate_def exactlyOne_def go_const Let_def)

lemma frame_roundtrip_witness:
  "\<exists>b. Frame_Encode sample_frame (replicate 100 1) = (HdrLen, b)
     \<and> drop HdrLen b = drop HdrLen (replicate 100 1) \<and> Decode b zero_frame = (OK, sample_frame)"
  by (rule frame_roundtrip [OF sample_frame_valid]) (simp add: go_const)

text \<open>C20: the decoder accepts nothing but encodings. A buffer is accepted exactly when it
  begins with the header of a frame that meets the rules, the frame returned is that one, and
  any other buffer leaves the caller's frame as it was.\<close>

theorem decode_accepts_iff:
  "(Decode b out = (OK, f) \<longleftrightarrow> Validate f = OK \<and> (\<exists>rest. b = frame_header f @ rest)) \<and>
   (fst (Decode b out) = OK \<or> snd (Decode b out) = out)"
  using frame_codec.decode_iff [of b f] decode_frame_Some [of b f out]
  by (auto simp: Decode_def Let_def)

text \<open>the encoder refuses what the decoder would refuse. \<open>Encode\<close> writes a header exactly
  when there is room for one and the frame meets the rules; otherwise it reports 0 bytes and
  the buffer is untouched.\<close>

theorem encode_refusal:
  "Frame_Encode f out =
     (if HdrLen \<le> length out \<and> (\<exists>g. Decode (frame_header f) g = (OK, f))
      then (HdrLen, frame_header f @ drop HdrLen out) else (0, out))"
proof -
  have "(\<exists>g. Decode (frame_header f) g = (OK, f)) \<longleftrightarrow> Validate f = OK"
    using Decode_header [of f "[]"] Decode_cases by auto
  then show ?thesis
    using Frame_Encode_eq [of out f] by (auto simp: Frame_Encode_def)
qed

text \<open>C21: the chain of tests in \<open>Validate\<close> accepts exactly the well-formed frames: one message
  pattern, a payload placed in one way if and only if there is one and no longer than a
  megabyte, continuation only of inline requests and replies, a lease generation only in the
  arena, and a correlation for every pattern but the notification.\<close>

theorem validate_iff_wellformed: "Validate f = OK \<longleftrightarrow> (\<exists>p pl ctl has_more. frame_ok p pl ctl has_more f)"
  by (rule Validate_OK_iff)

text \<open>The offsets of the inline test, computed without wrap-around.\<close>

lemma word64_no_wrap:
  fixes a :: u64 and l :: u32
  shows "a + ucast l < a \<longleftrightarrow> \<not> unat a + unat l < 2 ^ 64"
  using no_olen_add_nat [of a "ucast l"] by (simp add: not_less [symmetric]) blast

lemma inline_bounds_iff:
  fixes a :: u64 and l s :: u32
  shows "\<not> a + ucast l < a \<and> \<not> (a < of_nat HdrLen \<or> a + ucast l > ucast s)
     \<longleftrightarrow> HdrLen \<le> unat a \<and> unat a + unat l \<le> unat s"
proof (cases "unat a + unat l < 2 ^ 64")
  case True
  then have "unat (a + ucast l) = unat a + unat l"
    by (simp add: unat_word_ariths)
  with True show ?thesis
    using word64_no_wrap [of a l] by (auto simp: not_less word_le_nat_alt HdrLen_def)
next
  case False
  moreover have "unat s < 2 ^ LENGTH(32)" by (rule unsigned_less)
  ultimately show ?thesis using word64_no_wrap [of a l] by simp
qed

text \<open>\<open>CheckPlacement\<close> is exact. A frame passes when it meets the rules and its payload lies,
  in unbounded arithmetic, between the header and the end of the slot (inline) or is no longer
  than the arena; a reference chosen to wrap around 64 bits does not pass.\<close>

theorem check_placement_iff:
  "CheckPlacement f slotSize arenaSize = OK \<longleftrightarrow>
     Validate f = OK \<and>
     (fPayloadLen f = 0 \<or>
      (if fHdrFlags f AND FInline \<noteq> 0
       then HdrLen \<le> unat (fPayloadRef f) \<and>
            unat (fPayloadRef f) + unat (fPayloadLen f) \<le> unat slotSize
       else unat (fPayloadLen f) \<le> unat arenaSize))"
proof -
  have arena: "\<not> ucast (fPayloadLen f) > arenaSize \<longleftrightarrow> unat (fPayloadLen f) \<le> unat arenaSize"
    by (simp add: not_less word_le_nat_alt)
  show ?thesis
    unfolding CheckPlacement_def Let_def
    using inline_bounds_iff [of "fPayloadRef f" "fPayloadLen f" slotSize] arena
    by (simp split: if_split) blast
qed

end
