(* ===== verification/Ring.thy ===== *)
theory Ring
  imports LittleEndian
begin

text \<open>
  The single-producer single-consumer ring, \<open>server-go/bus/ring.go\<close>. The ring lives in shared
  memory: head, tail and slots are bytes of the mapped region, so every operation takes the
  region and a store returns it changed. \<open>Ring\<close> is the Go struct: the base of the ring in the
  region (the Go slice starts there) and the geometry that was validated at attach. A Go \<open>int\<close>
  is a 64-bit word read as signed.
\<close>

unbundle bit_operations_syntax

section \<open>Layout and state\<close>

definition ringMagic :: u32 where [go_const]: "ringMagic = 0x474e4952"
definition ringOffMagic :: nat where [go_const]: "ringOffMagic = 0"
definition ringOffSlot :: nat where [go_const]: "ringOffSlot = 4"
definition ringOffCap :: nat where [go_const]: "ringOffCap = 8"
definition ringOffMask :: nat where [go_const]: "ringOffMask = 12"
definition ringOffSlots :: nat where [go_const]: "ringOffSlots = 16"
definition ringOffHead :: nat where [go_const]: "ringOffHead = 64"
definition ringOffTail :: nat where [go_const]: "ringOffTail = 128"
definition ringHdrBytes :: nat where [go_const]: "ringHdrBytes = 192"

record Ring =
  rBase :: nat
  rSlotSize :: u32
  rCapacity :: u32
  rMask :: u32
  rSlotsOff :: u32

definition load64 :: "nat \<Rightarrow> byte list \<Rightarrow> u64" where
  "load64 off mem = Uint64 (drop off mem)"

definition Ring_head :: "Ring \<Rightarrow> byte list \<Rightarrow> u64" where
  "Ring_head r mem = load64 (rBase r + ringOffHead) mem"

definition Ring_tail :: "Ring \<Rightarrow> byte list \<Rightarrow> u64" where
  "Ring_tail r mem = load64 (rBase r + ringOffTail) mem"

section \<open>Attaching\<close>

text \<open>The size in Go's \<open>int\<close>: \<open>int(slotsOff) + int(slot)*int(capv)\<close>.\<close>

definition ring_need :: "u32 \<Rightarrow> u32 \<Rightarrow> u32 \<Rightarrow> u64" where
  "ring_need slotsOff slot capv = ucast slotsOff + ucast slot * ucast capv"

definition AttachRing :: "byte list \<Rightarrow> nat \<Rightarrow> error + Ring" where
  "AttachRing mem base =
    (if length mem - base < ringHdrBytes then Inl ErrRingLayout
     else if Uint32 (drop (base + ringOffMagic) mem) \<noteq> ringMagic then Inl ErrRingLayout
     else
      let slot = Uint32 (drop (base + ringOffSlot) mem);
          capv = Uint32 (drop (base + ringOffCap) mem);
          mask = Uint32 (drop (base + ringOffMask) mem);
          slotsOff = Uint32 (drop (base + ringOffSlots) mem)
      in if capv < 2 \<or> capv AND (capv - 1) \<noteq> 0 \<or> slot = 0 \<or> mask \<noteq> capv - 1
           \<or> slotsOff \<noteq> of_nat ringHdrBytes then Inl ErrRingLayout
         else if int (length mem - base) < sint (ring_need slotsOff slot capv)
           then Inl ErrRingLayout
         else
          let head = load64 (base + ringOffHead) mem;
              tail = load64 (base + ringOffTail) mem
          in if head - tail > ucast capv then Inl ErrRingLayout
             else Inr \<lparr>rBase = base, rSlotSize = slot, rCapacity = capv, rMask = mask,
                       rSlotsOff = slotsOff\<rparr>)"

section \<open>Operations\<close>

definition Ring_Capacity :: "Ring \<Rightarrow> u32" where
  "Ring_Capacity r = rCapacity r"

definition Ring_SlotSize :: "Ring \<Rightarrow> u32" where
  "Ring_SlotSize r = rSlotSize r"

definition Ring_Count :: "Ring \<Rightarrow> byte list \<Rightarrow> u64" where
  "Ring_Count r mem = Ring_head r mem - Ring_tail r mem"

text \<open>
  The slice \<open>r.mem[off : off+slotSize]\<close> is given by where it starts in the region; its length
  is the slot size.
\<close>

definition Ring_slot :: "Ring \<Rightarrow> u64 \<Rightarrow> nat" where
  "Ring_slot r index =
     rBase r + unat (ucast (rSlotsOff r) + (index AND ucast (rMask r)) * ucast (rSlotSize r) :: u64)"

definition ProduceBegin :: "Ring \<Rightarrow> byte list \<Rightarrow> nat option" where
  "ProduceBegin r mem =
    (let head = Ring_head r mem; tail = Ring_tail r mem
     in if head - tail \<ge> ucast (rCapacity r) then None else Some (Ring_slot r head))"

definition ProduceCommit :: "Ring \<Rightarrow> byte list \<Rightarrow> byte list" where
  "ProduceCommit r mem =
    (let head = Ring_head r mem in PutUint64 (rBase r + ringOffHead) (head + 1) mem)"

definition ConsumeBegin :: "Ring \<Rightarrow> byte list \<Rightarrow> nat option" where
  "ConsumeBegin r mem =
    (let tail = Ring_tail r mem; head = Ring_head r mem
     in if head = tail then None else Some (Ring_slot r tail))"

definition ConsumeCommit :: "Ring \<Rightarrow> byte list \<Rightarrow> byte list" where
  "ConsumeCommit r mem =
    (let tail = Ring_tail r mem in PutUint64 (rBase r + ringOffTail) (tail + 1) mem)"

text \<open>\<open>initRing\<close> zeroes and lays out a ring at the start of a region, then attaches to it.\<close>

definition initRing :: "byte list \<Rightarrow> u32 \<Rightarrow> u32 \<Rightarrow> (error + Ring) \<times> byte list" where
  "initRing mem slotSize capacity =
    (if capacity < 2 \<or> capacity AND (capacity - 1) \<noteq> 0 \<or> slotSize = 0
     then (Inl ErrRingLayout, mem)
     else
      let need = of_nat ringHdrBytes + ucast slotSize * ucast capacity :: u64
      in if int (length mem) < sint need then (Inl ErrRingLayout, mem)
         else
          let m = put_at 0 (replicate (unat need) 0) mem;
              m = PutUint32 ringOffSlot slotSize m;
              m = PutUint32 ringOffCap capacity m;
              m = PutUint32 ringOffMask (capacity - 1) m;
              m = PutUint32 ringOffSlots (of_nat ringHdrBytes) m;
              m = PutUint64 ringOffHead 0 m;
              m = PutUint64 ringOffTail 0 m;
              m = PutUint32 ringOffMagic ringMagic m
          in (AttachRing m 0, m))"

section \<open>The invariant of an attached ring\<close>

text \<open>
  The capacity is a power of two from 2 to \<open>2^31\<close>, the slots fit in the region in unbounded
  arithmetic, and the indices are no further apart than the capacity.
\<close>

definition ring_geometry :: "Ring \<Rightarrow> nat \<Rightarrow> bool" where
  "ring_geometry r len \<longleftrightarrow>
     (\<exists>k. 1 \<le> k \<and> k < 32 \<and> rCapacity r = 2 ^ k) \<and> rMask r = rCapacity r - 1
     \<and> rSlotsOff r = of_nat ringHdrBytes \<and> 0 < unat (rSlotSize r)
     \<and> rBase r + ringHdrBytes + unat (rSlotSize r) * unat (rCapacity r) \<le> len"

definition ring_ok :: "Ring \<Rightarrow> byte list \<Rightarrow> bool" where
  "ring_ok r mem \<longleftrightarrow> ring_geometry r (length mem)
     \<and> unat (Ring_head r mem - Ring_tail r mem) \<le> unat (rCapacity r)"

lemma power_word_unat:
  assumes "k < 32"
  shows "unat (2 ^ k :: u32) = 2 ^ k"
proof -
  have "(2 :: nat) ^ k < 2 ^ 32" using assms by (intro power_strict_increasing) simp_all
  then show ?thesis by (simp add: unat_of_nat [of "2 ^ k", simplified])
qed

text \<open>
  The geometry cannot overflow Go's \<open>int\<close>: the slot size is below \<open>2^32\<close> and the capacity at
  most \<open>2^31\<close>, so the region size stays below \<open>2^63\<close>.
\<close>

lemma ring_need_exact:
  assumes "k < 32" and "capv = 2 ^ k"
  shows "unat (ring_need (of_nat ringHdrBytes) slot capv) = ringHdrBytes + unat slot * unat capv"
    and "ringHdrBytes + unat slot * unat capv < 2 ^ 63"
proof -
  have slot: "unat slot < 2 ^ LENGTH(32)" by (rule unsigned_less)
  have cap: "unat capv \<le> 2 ^ 31"
    using assms power_word_unat [of k] power_increasing [of k 31 "2 :: nat"] by simp
  have "unat slot * unat capv \<le> (2 ^ 32 - 1) * 2 ^ 31"
    using slot cap by (intro mult_le_mono) simp_all
  then show small: "ringHdrBytes + unat slot * unat capv < 2 ^ 63"
    by (simp add: ringHdrBytes_def)
  show "unat (ring_need (of_nat ringHdrBytes) slot capv) = ringHdrBytes + unat slot * unat capv"
    using small by (simp add: ring_need_def ringHdrBytes_def unat_word_ariths)
qed

lemma ring_need_less:
  assumes "k < 32" and "capv = 2 ^ k"
  shows "int n < sint (ring_need (of_nat ringHdrBytes) slot capv)
     \<longleftrightarrow> n < ringHdrBytes + unat slot * unat capv"
  using ring_need_exact [OF assms, of slot] by (simp only: go_int_less)

text \<open>What the header of a ring says, and the exact condition under which it is adopted.\<close>

definition ring_header_says :: "Ring \<Rightarrow> byte list \<Rightarrow> bool" where
  "ring_header_says r mem \<longleftrightarrow>
     Uint32 (drop (rBase r + ringOffMagic) mem) = ringMagic
     \<and> Uint32 (drop (rBase r + ringOffSlot) mem) = rSlotSize r
     \<and> Uint32 (drop (rBase r + ringOffCap) mem) = rCapacity r
     \<and> Uint32 (drop (rBase r + ringOffMask) mem) = rMask r
     \<and> Uint32 (drop (rBase r + ringOffSlots) mem) = rSlotsOff r"

lemma capacity_test_iff:
  "\<not> (c < 2 \<or> c AND (c - 1) \<noteq> 0) \<longleftrightarrow> (\<exists>k. 1 \<le> k \<and> k < 32 \<and> c = 2 ^ k)" for c :: u32
proof
  assume h: "\<not> (c < 2 \<or> c AND (c - 1) \<noteq> 0)"
  then obtain k where k: "k < 32" "c = 2 ^ k"
    using word_power_of_two_iff [of c] by (auto simp: word_less_nat_alt)
  with h have "1 \<le> k" by (cases k) auto
  with k show "\<exists>k. 1 \<le> k \<and> k < 32 \<and> c = 2 ^ k" by blast
next
  assume "\<exists>k. 1 \<le> k \<and> k < 32 \<and> c = 2 ^ k"
  then obtain k where k: "1 \<le> k" "k < 32" "c = 2 ^ k" by blast
  then have "2 \<le> unat c"
    using power_word_unat [of k] power_increasing [of 1 k "2 :: nat"] by simp
  with k show "\<not> (c < 2 \<or> c AND (c - 1) \<noteq> 0)"
    using word_power_and_pred [of k, where 'a = 32] by (simp add: word_less_nat_alt)
qed

lemma AttachRing_iff:
  "AttachRing mem base = Inr r \<longleftrightarrow> rBase r = base \<and> ring_ok r mem \<and> ring_header_says r mem"
proof -
  have count: "\<not> h - t > ucast c \<longleftrightarrow> unat (h - t) \<le> unat c" for h t :: u64 and c :: u32
    by (simp add: not_less word_le_nat_alt)
  show ?thesis
  proof
    assume a: "AttachRing mem base = Inr r"
    let ?s = "Uint32 (drop (base + ringOffSlot) mem)"
    let ?c = "Uint32 (drop (base + ringOffCap) mem)"
    have r: "r = \<lparr>rBase = base, rSlotSize = ?s, rCapacity = ?c,
        rMask = Uint32 (drop (base + ringOffMask) mem),
        rSlotsOff = Uint32 (drop (base + ringOffSlots) mem)\<rparr>"
      using a by (simp add: AttachRing_def Let_def split: if_splits)
    have c: "\<not> (?c < 2 \<or> ?c AND (?c - 1) \<noteq> 0)"
      using a by (simp add: AttachRing_def Let_def split: if_splits)
    then obtain k where k: "1 \<le> k" "k < 32" "?c = 2 ^ k"
      using capacity_test_iff by blast
    have so: "Uint32 (drop (base + ringOffSlots) mem) = of_nat ringHdrBytes"
      using a by (simp add: AttachRing_def Let_def split: if_splits)
    have "\<not> int (length mem - base) < sint (ring_need (of_nat ringHdrBytes) ?s ?c)"
      using a by (simp add: AttachRing_def Let_def so split: if_splits)
    then have fits: "ringHdrBytes + unat ?s * unat ?c \<le> length mem - base"
      unfolding ring_need_less [OF k(2,3)] by (simp only: not_less)
    have big: "ringHdrBytes \<le> length mem - base"
      using a by (simp add: AttachRing_def Let_def split: if_splits)
    then have "base \<le> length mem" by (simp add: ringHdrBytes_def)
    with fits have "base + ringHdrBytes + unat ?s * unat ?c \<le> length mem" by simp
    then have "ring_geometry r (length mem)"
      using a k so r by (auto simp: ring_geometry_def AttachRing_def Let_def unat_gt_0
          split: if_splits)
    moreover have "unat (Ring_head r mem - Ring_tail r mem) \<le> unat (rCapacity r)"
      using a count r by (simp add: AttachRing_def Let_def Ring_head_def Ring_tail_def split: if_splits)
    moreover have "ring_header_says r mem"
      using a r by (auto simp: ring_header_says_def AttachRing_def Let_def split: if_splits)
    ultimately show "rBase r = base \<and> ring_ok r mem \<and> ring_header_says r mem"
      by (simp add: ring_ok_def) (simp add: r)
  next
    assume a: "rBase r = base \<and> ring_ok r mem \<and> ring_header_says r mem"
    then have geo: "ring_geometry r (length mem)"
      and cnt: "unat (Ring_head r mem - Ring_tail r mem) \<le> unat (rCapacity r)"
      and hdr: "ring_header_says r mem" and base: "rBase r = base"
      by (simp_all add: ring_ok_def)
    obtain k where k: "1 \<le> k" "k < 32" "rCapacity r = 2 ^ k"
      using geo by (auto simp: ring_geometry_def)
    have c: "\<not> (rCapacity r < 2 \<or> rCapacity r AND (rCapacity r - 1) \<noteq> 0)"
      using k capacity_test_iff by blast
    have rest: "rMask r = rCapacity r - 1" "rSlotsOff r = of_nat ringHdrBytes" "rSlotSize r \<noteq> 0"
      using geo by (auto simp: ring_geometry_def)
    have fits: "ringHdrBytes + unat (rSlotSize r) * unat (rCapacity r) \<le> length mem - base"
      using geo base by (auto simp: ring_geometry_def)
    then have need: "\<not> int (length mem - base)
        < sint (ring_need (of_nat ringHdrBytes) (rSlotSize r) (rCapacity r))"
      unfolding ring_need_less [OF k(2,3)] by (simp only: not_less)
    have "\<not> length mem - base < ringHdrBytes" using fits by simp
    moreover have "\<not> load64 (base + ringOffHead) mem - load64 (base + ringOffTail) mem > ucast (rCapacity r)"
      using cnt unfolding count Ring_head_def Ring_tail_def base .
    ultimately show "AttachRing mem base = Inr r"
      using c need hdr unfolding AttachRing_def Let_def ring_header_says_def base
      by (simp only: rest if_False simp_thms if_True) (simp add: base rest)
  qed
qed

section \<open>Slots\<close>

lemma ring_capacity_dvd:
  assumes "ring_geometry r len"
  shows "unat (rCapacity r) dvd 2 ^ 64" and "0 < unat (rCapacity r)"
proof -
  obtain k where k: "k < 32" "rCapacity r = 2 ^ k"
    using assms by (auto simp: ring_geometry_def)
  then have c: "unat (rCapacity r) = 2 ^ k" using power_word_unat by simp
  show "unat (rCapacity r) dvd 2 ^ 64"
    unfolding c using k(1) by (intro le_imp_power_dvd) simp
  show "0 < unat (rCapacity r)"
    unfolding c by simp
qed

lemma Ring_slot_exact:
  assumes "ring_geometry r len"
  shows "Ring_slot r i =
    rBase r + ringHdrBytes + (unat i mod unat (rCapacity r)) * unat (rSlotSize r)"
proof -
  obtain k where k: "k < 32" "rCapacity r = 2 ^ k" and so: "rSlotsOff r = of_nat ringHdrBytes"
    and mask: "rMask r = rCapacity r - 1"
    using assms by (auto simp: ring_geometry_def)
  have c: "unat (rCapacity r) = 2 ^ k" using k power_word_unat by simp
  have "unat (ucast (rMask r) :: u64) = 2 ^ k - 1"
    using c mask unat_minus_one [of "rCapacity r"] by (cases "rCapacity r = 0") simp_all
  moreover have "unat (2 ^ k - 1 :: u64) = 2 ^ k - 1"
  proof -
    have "(2 :: nat) ^ k < 2 ^ 64" using k(1) by (intro power_strict_increasing) simp_all
    then have "unat (2 ^ k :: u64) = 2 ^ k" by (simp add: unat_of_nat [of "2 ^ k", simplified])
    then show ?thesis using unat_minus_one [of "2 ^ k :: u64"] k(1) by simp
  qed
  ultimately have "ucast (rMask r) = (2 ^ k - 1 :: u64)"
    by (simp only: word_unat_eq_iff)
  then have idx: "unat (i AND ucast (rMask r)) = unat i mod unat (rCapacity r)"
    by (simp only: unat_and_power_pred c)
  have "unat i mod unat (rCapacity r) < 2 ^ k"
    unfolding c by simp
  moreover have "(2 :: nat) ^ k \<le> 2 ^ 31" using k(1) by (intro power_increasing) simp_all
  moreover have "unat (rSlotSize r) < 2 ^ LENGTH(32)" by (rule unsigned_less)
  ultimately have "(unat i mod unat (rCapacity r)) * unat (rSlotSize r) \<le> (2 ^ 31) * (2 ^ 32)"
    by (intro mult_le_mono) simp_all
  then show ?thesis
    by (simp add: Ring_slot_def so unat_word_ariths idx ringHdrBytes_def)
qed

text \<open>A slot lies after the header of its ring and inside the region.\<close>

lemma slot_bounds:
  assumes "ring_geometry r len"
  shows "rBase r + ringHdrBytes \<le> Ring_slot r i"
    and "Ring_slot r i + unat (rSlotSize r) \<le> len"
    and "Ring_slot r i + unat (rSlotSize r)
       \<le> rBase r + ringHdrBytes + unat (rSlotSize r) * unat (rCapacity r)"
proof -
  let ?c = "unat (rCapacity r)" and ?s = "unat (rSlotSize r)"
  have "unat i mod ?c < ?c" using ring_capacity_dvd(2) [OF assms] by simp
  then have "Suc (unat i mod ?c) * ?s \<le> ?c * ?s" by (intro mult_le_mono1) simp
  then show last: "Ring_slot r i + ?s \<le> rBase r + ringHdrBytes + ?s * ?c"
    by (simp add: Ring_slot_exact [OF assms] mult.commute)
  show "rBase r + ringHdrBytes \<le> Ring_slot r i"
    by (simp add: Ring_slot_exact [OF assms])
  show "Ring_slot r i + ?s \<le> len"
    using last assms by (simp add: ring_geometry_def)
qed

text \<open>Slots of indices that differ modulo the capacity do not overlap.\<close>

lemma slot_disjoint:
  assumes "ring_geometry r len" and "unat i mod unat (rCapacity r) \<noteq> unat j mod unat (rCapacity r)"
  shows "Ring_slot r i + unat (rSlotSize r) \<le> Ring_slot r j
       \<or> Ring_slot r j + unat (rSlotSize r) \<le> Ring_slot r i"
proof -
  let ?s = "unat (rSlotSize r)" and ?c = "unat (rCapacity r)"
  have step: "a * ?s + ?s \<le> b * ?s" if "a < b" for a b :: nat
    using mult_le_mono1 [of "Suc a" b ?s] that by simp
  show ?thesis
    using assms(2) step [of "unat i mod ?c" "unat j mod ?c"] step [of "unat j mod ?c" "unat i mod ?c"]
    by (simp only: Ring_slot_exact [OF assms(1)]) linarith
qed

section \<open>The queue a ring represents\<close>

text \<open>
  The number of occupied slots is the difference of the indices, which wrap at \<open>2^64\<close>; the
  contents, oldest first, are the slots from the tail on.
\<close>

definition ring_length :: "Ring \<Rightarrow> byte list \<Rightarrow> nat" where
  "ring_length r mem = unat (Ring_head r mem - Ring_tail r mem)"

definition slot_bytes :: "Ring \<Rightarrow> byte list \<Rightarrow> u64 \<Rightarrow> byte list" where
  "slot_bytes r mem i = slice_at (Ring_slot r i) (unat (rSlotSize r)) mem"

definition ring_list :: "Ring \<Rightarrow> byte list \<Rightarrow> byte list list" where
  "ring_list r mem = map (\<lambda>i. slot_bytes r mem (Ring_tail r mem + of_nat i)) [0..<ring_length r mem]"

lemma length_ring_list [simp]: "length (ring_list r mem) = ring_length r mem"
  by (simp add: ring_list_def)

lemma head_eq: "Ring_head r mem = Ring_tail r mem + of_nat (ring_length r mem)"
  by (simp add: ring_length_def)

lemma index_mod:
  fixes t :: u64
  assumes "ring_geometry r len"
  shows "unat (t + of_nat i) mod unat (rCapacity r) = (unat t + i) mod unat (rCapacity r)"
proof -
  have "unat (t + of_nat i) = (unat t + i) mod 2 ^ 64"
    by (simp add: unat_word_ariths unat_of_nat mod_add_right_eq)
  then show ?thesis
    by (simp only: mod_mod_cancel ring_capacity_dvd(1) [OF assms])
qed

lemma index_mod_distinct:
  fixes t :: u64
  assumes "ring_geometry r len" and "i < j" and "j - i < unat (rCapacity r)"
  shows "unat (t + of_nat i) mod unat (rCapacity r) \<noteq> unat (t + of_nat j) mod unat (rCapacity r)"
proof
  assume "unat (t + of_nat i) mod unat (rCapacity r) = unat (t + of_nat j) mod unat (rCapacity r)"
  then have "(unat t + j) mod unat (rCapacity r) = (unat t + i) mod unat (rCapacity r)"
    by (simp only: index_mod [OF assms(1)])
  then have "unat (rCapacity r) dvd j - i"
    using assms(2) mod_eq_dvd_iff_nat [of "unat t + i" "unat t + j"] by simp
  with assms(2,3) show False by (auto dest!: dvd_imp_le)
qed

subsection \<open>Stores to the region\<close>

text \<open>A store that keeps away from head and tail leaves the indices alone.\<close>

definition clear_of :: "nat \<Rightarrow> nat \<Rightarrow> nat \<Rightarrow> nat \<Rightarrow> bool" where
  "clear_of a n off k \<longleftrightarrow> a + n \<le> off \<or> off + k \<le> a"

lemma load64_put_at:
  assumes "clear_of a (length ys) off 8" and "a + length ys \<le> length mem" and "off + 8 \<le> length mem"
  shows "load64 off (put_at a ys mem) = load64 off mem"
  using assms unfolding load64_def clear_of_def by (intro Uint64_drop_put_at) auto

lemma load64_PutUint64:
  "off + 8 \<le> length mem \<Longrightarrow> load64 off (PutUint64 off v mem) = v"
  by (simp add: load64_def read_write_same)

lemma ring_mem_bounds:
  assumes "ring_geometry r len"
  shows "rBase r + ringOffHead + 8 \<le> len" and "rBase r + ringOffTail + 8 \<le> len"
  using assms by (auto simp: ring_geometry_def go_const)

text \<open>
  A store inside the slot of index \<open>i\<close> changes neither the indices nor the slots of other
  indices.
\<close>

definition in_slot :: "Ring \<Rightarrow> nat \<Rightarrow> 'a list \<Rightarrow> bool" where
  "in_slot r d ys \<longleftrightarrow> d + length ys \<le> unat (rSlotSize r)"

lemma slot_store_indices:
  assumes "ring_geometry r (length mem)" and "in_slot r d ys"
  shows "length (put_at (Ring_slot r i + d) ys mem) = length mem"
    and "Ring_head r (put_at (Ring_slot r i + d) ys mem) = Ring_head r mem"
    and "Ring_tail r (put_at (Ring_slot r i + d) ys mem) = Ring_tail r mem"
  using slot_bounds [OF assms(1), of i] ring_mem_bounds [OF assms(1)] assms(2)
  by (simp_all add: Ring_head_def Ring_tail_def load64_put_at clear_of_def go_const in_slot_def)

lemma slot_store_other:
  assumes "ring_geometry r (length mem)" and "in_slot r d ys"
    and "unat i mod unat (rCapacity r) \<noteq> unat j mod unat (rCapacity r)"
  shows "slot_bytes r (put_at (Ring_slot r i + d) ys mem) j = slot_bytes r mem j"
proof -
  let ?s = "unat (rSlotSize r)"
  have "Ring_slot r j + ?s \<le> length mem" and "Ring_slot r i + ?s \<le> length mem"
    by (rule slot_bounds(2) [OF assms(1)])+
  moreover have "Ring_slot r i + ?s \<le> Ring_slot r j \<or> Ring_slot r j + ?s \<le> Ring_slot r i"
    by (rule slot_disjoint [OF assms(1,3)])
  ultimately show ?thesis
    using assms(2) slice_put_at_before [of "Ring_slot r j" ?s "Ring_slot r i + d" mem ys]
      slice_put_at_after [of "Ring_slot r i + d" ys "Ring_slot r j" mem ?s]
    unfolding slot_bytes_def in_slot_def by linarith
qed

subsection \<open>Commits\<close>

lemma ring_ok_geometry: "ring_ok r mem \<Longrightarrow> ring_geometry r (length mem)"
  by (simp add: ring_ok_def)

lemma ring_length_le: "ring_ok r mem \<Longrightarrow> ring_length r mem \<le> unat (rCapacity r)"
  by (simp add: ring_ok_def ring_length_def)

lemma index_store:
  assumes "ring_geometry r (length mem)" and "off = rBase r + ringOffHead \<or> off = rBase r + ringOffTail"
  shows "length (PutUint64 off v mem) = length mem"
    and "slot_bytes r (PutUint64 off v mem) i = slot_bytes r mem i"
  using assms(2) ring_mem_bounds [OF assms(1)] slot_bounds [OF assms(1), of i]
    slice_put_at_after [of off "le64 v" "Ring_slot r i" mem "unat (rSlotSize r)"]
  by (auto simp: slot_bytes_def PutUint64_def go_const)

lemma ProduceCommit_indices:
  assumes "ring_geometry r (length mem)"
  shows "Ring_head r (ProduceCommit r mem) = Ring_head r mem + 1"
    and "Ring_tail r (ProduceCommit r mem) = Ring_tail r mem"
    and "length (ProduceCommit r mem) = length mem"
    and "slot_bytes r (ProduceCommit r mem) i = slot_bytes r mem i"
  using ring_mem_bounds [OF assms] index_store [OF assms] unfolding ProduceCommit_def Let_def
  by (simp_all add: Ring_head_def Ring_tail_def load64_PutUint64)
    (simp add: PutUint64_def load64_put_at clear_of_def go_const)

lemma ConsumeCommit_indices:
  assumes "ring_geometry r (length mem)"
  shows "Ring_head r (ConsumeCommit r mem) = Ring_head r mem"
    and "Ring_tail r (ConsumeCommit r mem) = Ring_tail r mem + 1"
    and "length (ConsumeCommit r mem) = length mem"
    and "slot_bytes r (ConsumeCommit r mem) i = slot_bytes r mem i"
  using ring_mem_bounds [OF assms] index_store [OF assms] unfolding ConsumeCommit_def Let_def
  by (simp_all add: Ring_head_def Ring_tail_def load64_PutUint64)
    (simp add: PutUint64_def load64_put_at clear_of_def go_const)

lemma ring_cap_small: "ring_geometry r len \<Longrightarrow> unat (rCapacity r) < 2 ^ 64 - 1"
proof -
  have "unat (rCapacity r) < 2 ^ LENGTH(32)" by (rule unsigned_less)
  then show ?thesis by simp
qed

lemma ring_list_ProduceCommit:
  assumes "ring_ok r mem" and "ring_length r mem < unat (rCapacity r)"
  shows "ring_ok r (ProduceCommit r mem)"
    and "ring_list r (ProduceCommit r mem) = ring_list r mem @ [slot_bytes r mem (Ring_head r mem)]"
proof -
  note geo = ring_ok_geometry [OF assms(1)]
  note new = ProduceCommit_indices [OF geo]
  have "unat (Ring_head r mem - Ring_tail r mem) + 1 < 2 ^ 64"
    using assms(2) ring_cap_small [OF geo] by (simp add: ring_length_def)
  then have "unat (Ring_head r mem - Ring_tail r mem + 1) = Suc (ring_length r mem)"
    by (simp add: ring_length_def unat_word_ariths)
  then have len: "ring_length r (ProduceCommit r mem) = Suc (ring_length r mem)"
    by (simp add: ring_length_def new add_diff_eq diff_add_eq)
  with assms(2) geo show "ring_ok r (ProduceCommit r mem)"
    by (simp add: ring_ok_def new(3) ring_length_def)
  show "ring_list r (ProduceCommit r mem) = ring_list r mem @ [slot_bytes r mem (Ring_head r mem)]"
    by (simp add: ring_list_def len new head_eq)
qed

lemma ring_list_ConsumeCommit:
  assumes "ring_ok r mem" and "0 < ring_length r mem"
  shows "ring_ok r (ConsumeCommit r mem)"
    and "ring_list r (ConsumeCommit r mem) = tl (ring_list r mem)"
proof -
  note geo = ring_ok_geometry [OF assms(1)]
  note new = ConsumeCommit_indices [OF geo]
  have "Ring_head r mem - Ring_tail r mem \<noteq> 0"
    using assms(2) by (auto simp: ring_length_def)
  then have "unat (Ring_head r mem - Ring_tail r mem - 1) = ring_length r mem - 1"
    by (simp add: ring_length_def unat_minus_one)
  then have len: "ring_length r (ConsumeCommit r mem) = ring_length r mem - 1"
    by (simp add: ring_length_def new diff_diff_eq)
  then show "ring_ok r (ConsumeCommit r mem)"
    using geo ring_length_le [OF assms(1)] by (simp add: ring_ok_def new(3) ring_length_def)
  obtain n where n: "ring_length r mem = Suc n" using assms(2) by (cases "ring_length r mem") auto
  have "ring_list r mem = slot_bytes r mem (Ring_tail r mem)
      # map (\<lambda>i. slot_bytes r mem (Ring_tail r mem + of_nat (Suc i))) [0..<n]"
    unfolding ring_list_def n by (subst map_upt_Suc) simp
  then show "ring_list r (ConsumeCommit r mem) = tl (ring_list r mem)"
    by (simp add: ring_list_def len n new ac_simps)
qed

lemma ring_list_fill:
  assumes "ring_ok r mem" and "in_slot r d ys" and "ring_length r mem < unat (rCapacity r)"
  defines "mem' \<equiv> put_at (Ring_slot r (Ring_head r mem) + d) ys mem"
  shows "ring_ok r mem'" and "ring_list r mem' = ring_list r mem"
    and "Ring_head r mem' = Ring_head r mem" and "Ring_tail r mem' = Ring_tail r mem"
    and "ring_length r mem' = ring_length r mem" and "length mem' = length mem"
proof -
  note geo = ring_ok_geometry [OF assms(1)]
  note same = slot_store_indices [OF geo assms(2), of "Ring_head r mem", folded mem'_def]
  show "Ring_head r mem' = Ring_head r mem" "Ring_tail r mem' = Ring_tail r mem"
    "length mem' = length mem" by (rule same)+
  show "ring_ok r mem'"
    using assms(1) by (simp add: ring_ok_def same)
  show n: "ring_length r mem' = ring_length r mem" by (simp add: ring_length_def same)
  have "slot_bytes r mem' (Ring_tail r mem + of_nat i) = slot_bytes r mem (Ring_tail r mem + of_nat i)"
    if "i < ring_length r mem" for i
  proof -
    have "ring_length r mem - i < unat (rCapacity r)" using assms(3) by simp
    from index_mod_distinct [OF geo that this, of "Ring_tail r mem", THEN not_sym]
    show ?thesis
      unfolding mem'_def by (intro slot_store_other [OF geo assms(2)]) (simp add: head_eq)
  qed
  then show "ring_list r mem' = ring_list r mem"
    by (simp add: ring_list_def n same)
qed

lemma ProduceBegin_iff:
  "ProduceBegin r mem =
    (if ring_length r mem < unat (rCapacity r) then Some (Ring_slot r (Ring_head r mem)) else None)"
  by (simp add: ProduceBegin_def Let_def ring_length_def word_le_nat_alt)

lemma ConsumeBegin_iff:
  "ConsumeBegin r mem =
    (if ring_length r mem = 0 then None else Some (Ring_slot r (Ring_tail r mem)))"
  by (simp add: ConsumeBegin_def Let_def ring_length_def unat_gt_0)

lemma ring_list_hd:
  assumes "0 < ring_length r mem"
  shows "hd (ring_list r mem) = slot_bytes r mem (Ring_tail r mem)" and "ring_list r mem \<noteq> []"
proof -
  show ne: "ring_list r mem \<noteq> []" using assms by (metis length_ring_list list.size(3) less_irrefl)
  show "hd (ring_list r mem) = slot_bytes r mem (Ring_tail r mem)"
    using ne assms by (simp add: hd_conv_nth) (simp add: ring_list_def)
qed

section \<open>The interface of a bounded queue\<close>

text \<open>
  What a client of a ring relies on: producing appends while there is room, consuming takes the
  oldest item. \<open>queue_run\<close> runs any interleaving of the two sides and collects the items that
  were accepted and the items that were delivered.
\<close>

datatype 'a queue_op = Put 'a | Take

fun queue_run ::
  "('m \<Rightarrow> 'a \<Rightarrow> 'm option) \<Rightarrow> ('m \<Rightarrow> ('a \<times> 'm) option) \<Rightarrow> 'm \<Rightarrow> 'a queue_op list
   \<Rightarrow> 'a list \<times> 'a list \<times> 'm" where
  "queue_run produce consume m [] = ([], [], m)"
| "queue_run produce consume m (Put x # ops) =
    (case produce m x of
       None \<Rightarrow> queue_run produce consume m ops
     | Some m' \<Rightarrow> (case queue_run produce consume m' ops of (acc, del, e) \<Rightarrow> (x # acc, del, e)))"
| "queue_run produce consume m (Take # ops) =
    (case consume m of
       None \<Rightarrow> queue_run produce consume m ops
     | Some (x, m') \<Rightarrow> (case queue_run produce consume m' ops of (acc, del, e) \<Rightarrow> (acc, x # del, e)))"

text \<open>The specification: a list that takes an item while it is shorter than its capacity.\<close>

fun queue_spec :: "nat \<Rightarrow> 'a list \<Rightarrow> 'a queue_op list \<Rightarrow> 'a list \<times> 'a list \<times> 'a list" where
  "queue_spec cap q [] = ([], [], q)"
| "queue_spec cap q (Put x # ops) =
    (if length q < cap
     then (case queue_spec cap (q @ [x]) ops of (acc, del, q') \<Rightarrow> (x # acc, del, q'))
     else queue_spec cap q ops)"
| "queue_spec cap [] (Take # ops) = queue_spec cap [] ops"
| "queue_spec cap (y # q) (Take # ops) =
    (case queue_spec cap q ops of (acc, del, q') \<Rightarrow> (acc, y # del, q'))"

lemma queue_spec_conserves:
  "queue_spec cap q ops = (acc, del, q') \<Longrightarrow> q @ acc = del @ q'"
  by (induction cap q ops arbitrary: acc del q' rule: queue_spec.induct)
    (fastforce split: if_splits prod.splits)+

locale bounded_queue =
  fixes ok :: "'m \<Rightarrow> bool"
    and items :: "'m \<Rightarrow> 'a list"
    and fits :: "'a \<Rightarrow> bool"
    and cap :: nat
    and produce :: "'m \<Rightarrow> 'a \<Rightarrow> 'm option"
    and consume :: "'m \<Rightarrow> ('a \<times> 'm) option"
  assumes produce_full: "ok m \<Longrightarrow> cap \<le> length (items m) \<Longrightarrow> produce m x = None"
    and produce_room: "ok m \<Longrightarrow> fits x \<Longrightarrow> length (items m) < cap \<Longrightarrow>
      \<exists>m'. produce m x = Some m' \<and> ok m' \<and> items m' = items m @ [x]"
    and consume_empty: "ok m \<Longrightarrow> items m = [] \<Longrightarrow> consume m = None"
    and consume_first: "ok m \<Longrightarrow> items m = x # xs \<Longrightarrow>
      \<exists>m'. consume m = Some (x, m') \<and> ok m' \<and> items m' = xs"
    and length_items: "ok m \<Longrightarrow> length (items m) \<le> cap"
begin

lemma simulates:
  assumes "ok m" and "\<forall>x. Put x \<in> set ops \<longrightarrow> fits x"
    and "queue_run produce consume m ops = (acc, del, m')"
  shows "ok m' \<and> queue_spec cap (items m) ops = (acc, del, items m')"
  using assms
proof (induction ops arbitrary: m acc del m')
  case Nil
  then show ?case by simp
next
  case (Cons op ops)
  show ?case
  proof (cases op)
    case (Put x)
    show ?thesis
    proof (cases "length (items m) < cap")
      case True
      with produce_room [of m x] Cons.prems Put obtain m1 where m1: "produce m x = Some m1"
        "ok m1" "items m1 = items m @ [x]" by auto
      obtain a d e where run: "queue_run produce consume m1 ops = (a, d, e)"
        by (cases "queue_run produce consume m1 ops") auto
      with Cons.IH [OF m1(2) _ run] Cons.prems Put m1 True show ?thesis by auto
    next
      case False
      with produce_full [of m x] Cons Put show ?thesis by simp
    qed
  next
    case Take
    show ?thesis
    proof (cases "items m")
      case Nil
      with consume_empty [of m] Cons.prems Take have "queue_run produce consume m ops = (acc, del, m')"
        by simp
      with Cons.IH [of m acc del m'] Cons.prems Nil Take show ?thesis by auto
    next
      case (Cons y ys)
      with consume_first [of m y ys] Cons.prems obtain m1 where m1: "consume m = Some (y, m1)"
        "ok m1" "items m1 = ys" by auto
      obtain a d e where run: "queue_run produce consume m1 ops = (a, d, e)"
        by (cases "queue_run produce consume m1 ops") auto
      with Cons.IH [OF m1(2) _ run] Cons.prems Take m1 Cons show ?thesis by auto
    qed
  qed
qed

lemma never_refuses_with_room:
  assumes "ok m" and "fits x"
  shows "produce m x = None \<longleftrightarrow> length (items m) = cap"
  using assms produce_full [of m x] produce_room [of m x] length_items [of m] by fastforce

end

section \<open>The ring as a bounded queue\<close>

text \<open>One complete production and one complete consumption of a whole slot.\<close>

definition ring_produce :: "Ring \<Rightarrow> byte list \<Rightarrow> byte list \<Rightarrow> byte list option" where
  "ring_produce r mem x =
    (case ProduceBegin r mem of
       None \<Rightarrow> None
     | Some off \<Rightarrow> Some (ProduceCommit r (put_at off x mem)))"

definition ring_consume :: "Ring \<Rightarrow> byte list \<Rightarrow> (byte list \<times> byte list) option" where
  "ring_consume r mem =
    (case ConsumeBegin r mem of
       None \<Rightarrow> None
     | Some off \<Rightarrow> Some (slice_at off (unat (rSlotSize r)) mem, ConsumeCommit r mem))"

lemma ring_produce_room:
  assumes "ring_ok r mem" and "length x = unat (rSlotSize r)"
    and "ring_length r mem < unat (rCapacity r)"
  shows "\<exists>mem'. ring_produce r mem x = Some mem' \<and> ring_ok r mem'
     \<and> ring_list r mem' = ring_list r mem @ [x]"
proof -
  let ?m = "put_at (Ring_slot r (Ring_head r mem)) x mem"
  have "in_slot r 0 x" using assms(2) by (simp add: in_slot_def)
  note fill = ring_list_fill [OF assms(1) this assms(3), simplified]
  have "slot_bytes r ?m (Ring_head r ?m) = x"
    using slot_bounds(2) [OF ring_ok_geometry [OF assms(1)]] assms(2)
    by (simp add: slot_bytes_def fill slice_put_at_same)
  then show ?thesis
    using ring_list_ProduceCommit [OF fill(1)] assms(3)
    by (simp add: ring_produce_def ProduceBegin_iff fill)
qed

interpretation ring_queue: bounded_queue "ring_ok r" "ring_list r" "\<lambda>x. length x = unat (rSlotSize r)"
  "unat (rCapacity r)" "ring_produce r" "ring_consume r" for r
proof unfold_locales
  show "ring_produce r m x = None" if "ring_ok r m" "unat (rCapacity r) \<le> length (ring_list r m)" for m x
    using that by (simp add: ring_produce_def ProduceBegin_iff)
  show "\<exists>m'. ring_produce r m x = Some m' \<and> ring_ok r m' \<and> ring_list r m' = ring_list r m @ [x]"
    if "ring_ok r m" "length x = unat (rSlotSize r)" "length (ring_list r m) < unat (rCapacity r)" for m x
    using ring_produce_room that by simp
  show "ring_consume r m = None" if "ring_ok r m" "ring_list r m = []" for m
    using that length_ring_list [of r m] by (simp add: ring_consume_def ConsumeBegin_iff)
  show "\<exists>m'. ring_consume r m = Some (x, m') \<and> ring_ok r m' \<and> ring_list r m' = xs"
    if "ring_ok r m" "ring_list r m = x # xs" for m x xs
  proof -
    have "0 < ring_length r m" using that(2) length_ring_list [of r m] by simp
    then show ?thesis
      using that ring_list_ConsumeCommit [OF that(1)] ring_list_hd [of r m]
      by (simp add: ring_consume_def ConsumeBegin_iff slot_bytes_def)
  qed
  show "length (ring_list r m) \<le> unat (rCapacity r)" if "ring_ok r m" for m
    using that ring_length_le by simp
qed

section \<open>Properties\<close>

text \<open>\<open>AttachRing\<close> adopts a mapped ring exactly when the header names a geometry that fits.
  The capacity is a power of two, the mask and the slot offset agree with it, all slots lie inside
  the mapped bytes in unbounded arithmetic (Go's \<open>int\<close> cannot overflow in the test), and the
  indices are at most a capacity apart.\<close>

theorem attach_ring_iff:
  "AttachRing mem base = Inr r \<longleftrightarrow> rBase r = base \<and> ring_ok r mem \<and> ring_header_says r mem"
  by (rule AttachRing_iff)

text \<open>When \<open>initRing\<close> succeeds, and the ring it returns.\<close>

definition init_fits :: "byte list \<Rightarrow> u32 \<Rightarrow> u32 \<Rightarrow> bool" where
  "init_fits mem slotSize capacity \<longleftrightarrow>
     (\<exists>k. 1 \<le> k \<and> k < 32 \<and> capacity = 2 ^ k) \<and> slotSize \<noteq> 0
     \<and> ringHdrBytes + unat slotSize * unat capacity \<le> length mem"

definition fresh_ring :: "u32 \<Rightarrow> u32 \<Rightarrow> Ring" where
  "fresh_ring slotSize capacity = \<lparr>rBase = 0, rSlotSize = slotSize, rCapacity = capacity,
     rMask = capacity - 1, rSlotsOff = of_nat ringHdrBytes\<rparr>"

definition init_mem :: "byte list \<Rightarrow> u32 \<Rightarrow> u32 \<Rightarrow> byte list" where
  "init_mem mem slotSize capacity =
    PutUint32 ringOffMagic ringMagic (PutUint64 ringOffTail 0 (PutUint64 ringOffHead 0
     (PutUint32 ringOffSlots (of_nat ringHdrBytes) (PutUint32 ringOffMask (capacity - 1)
      (PutUint32 ringOffCap capacity (PutUint32 ringOffSlot slotSize
       (put_at 0 (replicate (ringHdrBytes + unat slotSize * unat capacity) 0) mem)))))))"

lemma init_mem_facts:
  assumes "ringHdrBytes + unat slotSize * unat capacity \<le> length mem"
  shows "length (init_mem mem slotSize capacity) = length mem"
    and "ring_header_says (fresh_ring slotSize capacity) (init_mem mem slotSize capacity)"
    and "load64 ringOffHead (init_mem mem slotSize capacity) = 0"
    and "load64 ringOffTail (init_mem mem slotSize capacity) = 0"
    and "drop (ringHdrBytes + unat slotSize * unat capacity) (init_mem mem slotSize capacity)
       = drop (ringHdrBytes + unat slotSize * unat capacity) mem"
proof -
  let ?n = "ringHdrBytes + unat slotSize * unat capacity"
  define z where "z = put_at 0 (replicate ?n 0) mem"
  have z: "length z = length mem" "drop ?n z = drop ?n mem" "192 \<le> length z"
    using assms by (simp_all add: z_def drop_put_at_after ringHdrBytes_def)
  have m: "init_mem mem slotSize capacity =
    PutUint32 ringOffMagic ringMagic (PutUint64 ringOffTail 0 (PutUint64 ringOffHead 0
     (PutUint32 ringOffSlots (of_nat ringHdrBytes) (PutUint32 ringOffMask (capacity - 1)
      (PutUint32 ringOffCap capacity (PutUint32 ringOffSlot slotSize z))))))"
    by (simp add: init_mem_def z_def)
  note offs = ringOffMagic_def ringOffSlot_def ringOffCap_def ringOffMask_def ringOffSlots_def
    ringOffHead_def ringOffTail_def
  have same: "Uint32 (drop p (PutUint32 p a w)) = a" if "p + 4 \<le> length w" for p a w
    using that by (rule read_write_same)
  show "length (init_mem mem slotSize capacity) = length mem"
    using z by (simp add: m offs)
  show "ring_header_says (fresh_ring slotSize capacity) (init_mem mem slotSize capacity)"
    unfolding m ring_header_says_def fresh_ring_def using z(3)
    by (simp add: offs read_write_same(1) [of 0, simplified] read_write_same read_write_other
        read_write_other [of 0, simplified])
  show "load64 ringOffHead (init_mem mem slotSize capacity) = 0"
    and "load64 ringOffTail (init_mem mem slotSize capacity) = 0"
    unfolding m load64_def using z(3) by (simp_all add: offs read_write_same read_write_other)
  show "drop ?n (init_mem mem slotSize capacity) = drop ?n mem"
    unfolding m using z assms by (simp add: offs drop_Put ringHdrBytes_def)
qed

lemma init_ring_succeeds:
  assumes "init_fits mem slotSize capacity"
  defines "m \<equiv> init_mem mem slotSize capacity" and "r \<equiv> fresh_ring slotSize capacity"
  shows "initRing mem slotSize capacity = (Inr r, m)" and "ring_ok r m" and "ring_list r m = []"
    and "AttachRing m 0 = Inr r"
proof -
  obtain k where k: "1 \<le> k" "k < 32" "capacity = 2 ^ k" and s: "slotSize \<noteq> 0"
    and fits: "ringHdrBytes + unat slotSize * unat capacity \<le> length mem"
    using assms(1) by (auto simp: init_fits_def)
  note facts = init_mem_facts [OF fits, folded m_def r_def]
  have need: "(of_nat ringHdrBytes + ucast slotSize * ucast capacity :: u64)
      = ring_need (of_nat ringHdrBytes) slotSize capacity"
    by (simp add: ring_need_def ringHdrBytes_def)
  have idx: "Ring_head r m = 0" "Ring_tail r m = 0"
    using facts(3,4) by (simp_all add: Ring_head_def Ring_tail_def r_def fresh_ring_def)
  have "ring_geometry r (length mem)"
    using k s fits by (auto simp: ring_geometry_def r_def fresh_ring_def unat_gt_0)
  then show ok: "ring_ok r m"
    by (simp add: ring_ok_def idx facts(1))
  show "ring_list r m = []"
    by (simp add: ring_list_def ring_length_def idx)
  show attach: "AttachRing m 0 = Inr r"
    using ok facts(2) by (simp add: AttachRing_iff) (simp add: r_def fresh_ring_def)
  have "initRing mem slotSize capacity = (AttachRing m 0, m)"
    using capacity_test_iff [of capacity] k s fits ring_need_less [OF k(2,3), of "length mem" slotSize]
      ring_need_exact(1) [OF k(2,3), of slotSize]
    unfolding initRing_def Let_def need init_mem_def m_def by auto
  then show "initRing mem slotSize capacity = (Inr r, m)"
    by (simp add: attach)
qed

text \<open>\<open>initRing\<close> lays out an empty ring or refuses. For a power-of-two capacity from 2 up, a
  non-empty slot and a region that is large enough it zeroes the ring's bytes, leaves the bytes
  after them alone and returns an attached, empty ring; in every other case it reports a layout
  error and the region is unchanged.\<close>

theorem init_ring_spec:
  "if init_fits mem slotSize capacity
   then \<exists>m. initRing mem slotSize capacity = (Inr (fresh_ring slotSize capacity), m)
     \<and> ring_ok (fresh_ring slotSize capacity) m \<and> ring_list (fresh_ring slotSize capacity) m = []
     \<and> length m = length mem
     \<and> drop (ringHdrBytes + unat slotSize * unat capacity) m
       = drop (ringHdrBytes + unat slotSize * unat capacity) mem
   else initRing mem slotSize capacity = (Inl ErrRingLayout, mem)"
proof (cases "init_fits mem slotSize capacity")
  case True
  then have "ringHdrBytes + unat slotSize * unat capacity \<le> length mem"
    by (simp add: init_fits_def)
  from init_mem_facts [OF this] init_ring_succeeds [OF True] True show ?thesis by simp
next
  case False
  have need: "(of_nat ringHdrBytes + ucast slotSize * ucast capacity :: u64)
      = ring_need (of_nat ringHdrBytes) slotSize capacity"
    by (simp add: ring_need_def ringHdrBytes_def)
  show ?thesis
  proof (cases "slotSize \<noteq> 0 \<and> (\<exists>k. 1 \<le> k \<and> k < 32 \<and> capacity = 2 ^ k)")
    case True
    then obtain k where k: "k < 32" "capacity = 2 ^ k" by blast
    have "int (length mem) < sint (ring_need (of_nat ringHdrBytes) slotSize capacity)"
      using False True by (simp add: ring_need_less [OF k] init_fits_def) (use k in auto)
    with False show ?thesis by (simp add: initRing_def Let_def need)
  next
    case bad: False
    with capacity_test_iff [of capacity] False show ?thesis
      by (simp add: initRing_def) blast
  qed
qed

text \<open>A ring of two slots of four bytes, for the concrete instances below.\<close>

definition sample_ring :: Ring where
  "sample_ring = fresh_ring 4 2"

definition sample_mem :: "byte list" where
  "sample_mem = init_mem (replicate 200 7) 4 2"

lemma sample_init: "init_fits (replicate 200 7) 4 2"
  by (auto simp: init_fits_def ringHdrBytes_def intro: exI [of _ 1])

lemma sample_ring_facts:
  "ring_ok sample_ring sample_mem" "ring_list sample_ring sample_mem = []"
  "AttachRing sample_mem 0 = Inr sample_ring"
  using init_ring_succeeds [OF sample_init] by (simp_all add: sample_ring_def sample_mem_def)

text \<open>no slot access of an attached ring can leave the mapping or touch the ring's header. For
  every 64-bit index, wrapped or not, the slot the code computes begins after the 192 header bytes
  and ends inside the region, and the slots of two indices that differ modulo the capacity do not
  overlap.\<close>

theorem slot_in_bounds:
  assumes "AttachRing mem base = Inr r"
  shows "base + ringHdrBytes \<le> Ring_slot r i
    \<and> Ring_slot r i + unat (rSlotSize r) \<le> length mem
    \<and> (unat i mod unat (rCapacity r) = unat j mod unat (rCapacity r)
       \<or> Ring_slot r i + unat (rSlotSize r) \<le> Ring_slot r j
       \<or> Ring_slot r j + unat (rSlotSize r) \<le> Ring_slot r i)"
proof -
  have geo: "ring_geometry r (length mem)" and base: "rBase r = base"
    using assms by (simp_all add: AttachRing_iff ring_ok_def)
  show ?thesis
    using slot_bounds [OF geo] slot_disjoint [OF geo] base by blast
qed

lemma slot_in_bounds_witness:
  "192 \<le> Ring_slot sample_ring 18446744073709551615
    \<and> Ring_slot sample_ring 18446744073709551615 + 4 \<le> length sample_mem
    \<and> (unat (18446744073709551615 :: u64) mod 2 = unat (0 :: u64) mod 2
       \<or> Ring_slot sample_ring 18446744073709551615 + 4 \<le> Ring_slot sample_ring 0
       \<or> Ring_slot sample_ring 0 + 4 \<le> Ring_slot sample_ring 18446744073709551615)"
  using slot_in_bounds [OF sample_ring_facts(3), of 18446744073709551615 0]
  by (simp add: sample_ring_def fresh_ring_def ringHdrBytes_def)

text \<open>C4: the ring behaves as a queue of bounded capacity. Whatever the order of complete
  productions and consumptions, it accepts exactly the slots that a list of that capacity accepts,
  refusing one only when the capacity is reached, it delivers exactly the slots that the list
  delivers, nothing only when the list is empty, and holds what the list holds; so the slots
  delivered followed by those still in the ring are the slots that were there followed by those
  accepted. This also holds when the 64-bit indices wrap around.\<close>

theorem ring_fifo:
  assumes "ring_ok r mem" and "\<forall>x. Put x \<in> set ops \<longrightarrow> length x = unat (rSlotSize r)"
    and "queue_run (ring_produce r) (ring_consume r) mem ops = (acc, del, mem')"
  shows "ring_ok r mem' \<and> queue_spec (unat (rCapacity r)) (ring_list r mem) ops = (acc, del, ring_list r mem')
     \<and> ring_list r mem @ acc = del @ ring_list r mem'"
  using ring_queue.simulates [OF assms] queue_spec_conserves by blast

lemma ring_fifo_witness:
  "\<exists>mem'. queue_run (ring_produce sample_ring) (ring_consume sample_ring) sample_mem
       [Put [1, 2, 3, 4], Take, Put [5, 6, 7, 8], Put [9, 9, 9, 9], Put [0, 0, 0, 0], Take]
       = ([[1, 2, 3, 4], [5, 6, 7, 8], [9, 9, 9, 9]], [[1, 2, 3, 4], [5, 6, 7, 8]], mem')
     \<and> ring_ok sample_ring mem' \<and> ring_list sample_ring mem' = [[9, 9, 9, 9]]"
proof -
  let ?ops = "[Put [1, 2, 3, 4], Take, Put [5, 6, 7, 8], Put [9, 9, 9, 9], Put [0, 0, 0, 0], Take]"
  obtain acc del mem' where run: "queue_run (ring_produce sample_ring) (ring_consume sample_ring)
      sample_mem ?ops = (acc, del, mem')"
    by (rule prod_cases3)
  have fits: "\<forall>x. Put x \<in> set ?ops \<longrightarrow> length (x :: byte list) = unat (rSlotSize sample_ring)"
    by (auto simp: sample_ring_def fresh_ring_def)
  have "unat (rCapacity sample_ring) = 2" by (simp add: sample_ring_def fresh_ring_def)
  with ring_fifo [OF sample_ring_facts(1) fits run] run sample_ring_facts(2) show ?thesis
    by auto
qed

text \<open>
  Producer and consumer run at the same time. The step relation interleaves their atomic actions:
  the producer takes a slot, stores into it piece by piece and publishes it; the consumer takes
  the oldest slot and gives it back. \<open>sent\<close> and \<open>received\<close> record what was published and what was
  read when the slot was given back, \<open>reading\<close> the slot the consumer holds with the bytes it held
  when it was taken.
\<close>

record spsc =
  spMem :: "byte list"
  spHeld :: "nat option"
  spReading :: "(nat \<times> byte list) option"
  spSent :: "byte list list"
  spReceived :: "byte list list"

inductive spsc_step :: "Ring \<Rightarrow> spsc \<Rightarrow> spsc \<Rightarrow> bool" for r where
  produce_begin: "spHeld s = None \<Longrightarrow> ProduceBegin r (spMem s) = Some off \<Longrightarrow>
     spsc_step r s (s\<lparr>spHeld := Some off\<rparr>)"
| produce_store: "spHeld s = Some off \<Longrightarrow> in_slot r d ys \<Longrightarrow>
     spsc_step r s (s\<lparr>spMem := put_at (off + d) ys (spMem s)\<rparr>)"
| produce_commit: "spHeld s = Some off \<Longrightarrow>
     spsc_step r s (s\<lparr>spMem := ProduceCommit r (spMem s), spHeld := None,
       spSent := spSent s @ [slice_at off (unat (rSlotSize r)) (spMem s)]\<rparr>)"
| consume_begin: "spReading s = None \<Longrightarrow> ConsumeBegin r (spMem s) = Some off \<Longrightarrow>
     spsc_step r s (s\<lparr>spReading := Some (off, slice_at off (unat (rSlotSize r)) (spMem s))\<rparr>)"
| consume_commit: "spReading s = Some (off, seen) \<Longrightarrow>
     spsc_step r s (s\<lparr>spMem := ConsumeCommit r (spMem s), spReading := None,
       spReceived := spReceived s @ [slice_at off (unat (rSlotSize r)) (spMem s)]\<rparr>)"

definition spsc_start :: "byte list \<Rightarrow> spsc" where
  "spsc_start mem = \<lparr>spMem = mem, spHeld = None, spReading = None, spSent = [], spReceived = []\<rparr>"

text \<open>
  The producer holds the slot at the head, which is free; the consumer holds the slot at the
  tail, which is occupied and still holds what it held when it was taken.
\<close>

definition spsc_inv :: "Ring \<Rightarrow> byte list list \<Rightarrow> spsc \<Rightarrow> bool" where
  "spsc_inv r initial s \<longleftrightarrow>
     ring_ok r (spMem s)
     \<and> (\<forall>off. spHeld s = Some off \<longrightarrow> off = Ring_slot r (Ring_head r (spMem s))
          \<and> ring_length r (spMem s) < unat (rCapacity r))
     \<and> (\<forall>off seen. spReading s = Some (off, seen) \<longrightarrow> off = Ring_slot r (Ring_tail r (spMem s))
          \<and> 0 < ring_length r (spMem s) \<and> seen = slot_bytes r (spMem s) (Ring_tail r (spMem s)))
     \<and> initial @ spSent s = spReceived s @ ring_list r (spMem s)"

lemma tail_slot_stable:
  assumes "ring_ok r mem" and "in_slot r d ys" and "ring_length r mem < unat (rCapacity r)"
    and "0 < ring_length r mem"
  shows "slot_bytes r (put_at (Ring_slot r (Ring_head r mem) + d) ys mem) (Ring_tail r mem)
    = slot_bytes r mem (Ring_tail r mem)"
proof -
  note fill = ring_list_fill [OF assms(1-3)]
  from ring_list_hd(1) [of r "put_at (Ring_slot r (Ring_head r mem) + d) ys mem"]
    ring_list_hd(1) [OF assms(4)] assms(4)
  show ?thesis by (simp add: fill)
qed

lemma spsc_step_inv:
  assumes "spsc_step r s t" and "spsc_inv r initial s"
  shows "spsc_inv r initial t"
  using assms
proof (induction rule: spsc_step.induct)
  case (produce_begin s off)
  then show ?case by (auto simp: spsc_inv_def ProduceBegin_iff split: if_splits)
next
  case (produce_store s off d ys)
  then have ok: "ring_ok r (spMem s)" and room: "ring_length r (spMem s) < unat (rCapacity r)"
    and off: "off = Ring_slot r (Ring_head r (spMem s))"
    by (auto simp: spsc_inv_def)
  note fill = ring_list_fill [OF ok produce_store(2) room, folded off]
  note stable = tail_slot_stable [OF ok produce_store(2) room, folded off]
  show ?case
    using produce_store(1,3) fill stable by (auto simp: spsc_inv_def)
next
  case (produce_commit s off)
  then have ok: "ring_ok r (spMem s)" and room: "ring_length r (spMem s) < unat (rCapacity r)"
    and off: "off = Ring_slot r (Ring_head r (spMem s))"
    by (auto simp: spsc_inv_def)
  note commit = ring_list_ProduceCommit [OF ok room] ProduceCommit_indices [OF ring_ok_geometry [OF ok]]
  have len: "ring_length r (ProduceCommit r (spMem s)) = Suc (ring_length r (spMem s))"
    using length_ring_list [of r "ProduceCommit r (spMem s)"] by (simp add: commit(2))
  show ?case
    using produce_commit commit by (auto simp: spsc_inv_def len off slot_bytes_def)
next
  case (consume_begin s off)
  then show ?case by (auto simp: spsc_inv_def ConsumeBegin_iff slot_bytes_def split: if_splits)
next
  case (consume_commit s off seen)
  then have ok: "ring_ok r (spMem s)" and busy: "0 < ring_length r (spMem s)"
    and off: "off = Ring_slot r (Ring_tail r (spMem s))"
    by (auto simp: spsc_inv_def)
  note commit = ring_list_ConsumeCommit [OF ok busy] ConsumeCommit_indices [OF ring_ok_geometry [OF ok]]
  have len: "ring_length r (ConsumeCommit r (spMem s)) = ring_length r (spMem s) - 1"
    using length_ring_list [of r "ConsumeCommit r (spMem s)"] by (simp add: commit(2))
  have split: "ring_list r (spMem s) = slot_bytes r (spMem s) (Ring_tail r (spMem s)) # tl (ring_list r (spMem s))"
    using ring_list_hd [OF busy] by (metis hd_Cons_tl)
  show ?case
    using consume_commit(1,2) commit split
    by (auto simp: spsc_inv_def len off slot_bytes_def)
qed

text \<open>C3: the two sides of a ring do not disturb each other. In every interleaving of their atomic
  actions from an empty ring, the slot that the consumer holds keeps the bytes it had when it was
  taken until it is given back, whatever the producer stores meanwhile, and what was received
  followed by what is in the ring is what was sent.\<close>

theorem spsc_safe:
  assumes "ring_ok r mem" and "ring_list r mem = []"
    and "(spsc_step r)\<^sup>*\<^sup>* (spsc_start mem) s"
  shows "spSent s = spReceived s @ ring_list r (spMem s)
    \<and> (case spReading s of None \<Rightarrow> True
       | Some (off, seen) \<Rightarrow> slice_at off (unat (rSlotSize r)) (spMem s) = seen)"
proof -
  have "spsc_inv r [] (spsc_start mem)"
    using assms(1,2) by (simp add: spsc_inv_def spsc_start_def)
  with assms(3) have "spsc_inv r [] s"
    by (induction rule: rtranclp_induct) (auto intro: spsc_step_inv)
  then show ?thesis
    by (auto simp: spsc_inv_def slot_bytes_def split: option.splits)
qed

text \<open>One item on its way: taken, stored, published, and held by the consumer.\<close>

lemma spsc_one_item:
  assumes "ring_ok r mem" and "ring_list r mem = []" and "length x = unat (rSlotSize r)"
    and "0 < unat (rCapacity r)"
  shows "\<exists>s off. (spsc_step r)\<^sup>*\<^sup>* (spsc_start mem) s \<and> spReading s = Some (off, x)"
proof -
  have len: "ring_length r mem = 0" using assms(2) length_ring_list [of r mem] by simp
  let ?off = "Ring_slot r (Ring_head r mem)"
  let ?s1 = "spsc_start mem\<lparr>spHeld := Some ?off\<rparr>"
  let ?m2 = "put_at (?off + 0) x mem"
  let ?s2 = "?s1\<lparr>spMem := ?m2\<rparr>"
  have inside: "in_slot r 0 x" using assms(3) by (simp add: in_slot_def)
  have room: "ring_length r mem < unat (rCapacity r)" using assms(4) len by simp
  note fill = ring_list_fill [OF assms(1) inside room]
  note commit = ring_list_ProduceCommit [OF fill(1)]
  let ?m3 = "ProduceCommit r ?m2"
  let ?s3 = "?s2\<lparr>spMem := ?m3, spHeld := None,
      spSent := spSent ?s2 @ [slice_at ?off (unat (rSlotSize r)) ?m2]\<rparr>"
  have list3: "ring_list r ?m3 = [slot_bytes r ?m2 (Ring_head r mem)]"
    using commit(2) room by (simp only: fill assms(2) append_Nil)
  have x: "slot_bytes r ?m2 (Ring_head r mem) = x"
    using slot_bounds(2) [OF ring_ok_geometry [OF assms(1)]] assms(3)
    by (simp add: slot_bytes_def slice_put_at_same)
  have len3: "ring_length r ?m3 = 1" using list3 length_ring_list [of r ?m3] by simp
  let ?off3 = "Ring_slot r (Ring_tail r ?m3)"
  let ?s4 = "?s3\<lparr>spReading := Some (?off3, slice_at ?off3 (unat (rSlotSize r)) ?m3)\<rparr>"
  have "spsc_step r (spsc_start mem) ?s1"
    using room by (intro spsc_step.produce_begin) (simp_all add: spsc_start_def ProduceBegin_iff)
  moreover have "spsc_step r ?s1 ?s2"
    using spsc_step.produce_store [of ?s1 ?off r 0 x] inside by (simp add: spsc_start_def)
  moreover have "spsc_step r ?s2 ?s3"
    using spsc_step.produce_commit [of ?s2 ?off r] by (simp add: spsc_start_def)
  moreover have "spsc_step r ?s3 ?s4"
    using spsc_step.consume_begin [of ?s3 r ?off3] len3 by (simp add: spsc_start_def ConsumeBegin_iff)
  ultimately have "(spsc_step r)\<^sup>*\<^sup>* (spsc_start mem) ?s4"
    by (meson rtranclp.rtrancl_into_rtrancl rtranclp.rtrancl_refl)
  moreover have "slice_at ?off3 (unat (rSlotSize r)) ?m3 = x"
    using ring_list_hd(1) [of r ?m3] len3 list3 x by (simp add: slot_bytes_def)
  ultimately show ?thesis by fastforce
qed

lemma spsc_safe_witness:
  "\<exists>(s :: spsc) off. spReading s = Some (off, [1, 2, 3, 4])
     \<and> spSent s = spReceived s @ ring_list sample_ring (spMem s)
     \<and> slice_at off 4 (spMem s) = [1, 2, 3, 4]"
proof -
  have size: "unat (rSlotSize sample_ring) = 4" "0 < unat (rCapacity sample_ring)"
    by (simp_all add: sample_ring_def fresh_ring_def)
  obtain s off where s: "(spsc_step sample_ring)\<^sup>*\<^sup>* (spsc_start sample_mem) s"
    "spReading s = Some (off, [1, 2, 3, 4])"
    using spsc_one_item [OF sample_ring_facts(1,2), of "[1, 2, 3, 4]"] size by auto
  from spsc_safe [OF sample_ring_facts(1,2) s(1)] s(2) size(1) show ?thesis
    by (intro exI [of _ s] exI [of _ off]) auto
qed

end
