(* ===== verification/Region.thy ===== *)
theory Region
  imports Ring
begin

text \<open>
  The mapped regions, \<open>server-go/bus/region.go\<close>: the read-only control region and the queue-pair
  region with its two rings, the checks made when they are adopted, and the size of a queue-pair
  region (\<open>qpairBytes\<close> of \<open>server-go/bus/client.go\<close>). A region is its bytes; the Go views hold a
  pointer to them, so an accessor reads the bytes as they are at the call.
\<close>

unbundle bit_operations_syntax

section \<open>Layout\<close>

definition ctlMagic :: u32 where [go_const]: "ctlMagic = 0x4c544342"
definition ctlOffMagic :: nat where [go_const]: "ctlOffMagic = 0"
definition ctlOffSpec :: nat where [go_const]: "ctlOffSpec = 4"
definition ctlOffLayout :: nat where [go_const]: "ctlOffLayout = 8"
definition ctlOffSlot :: nat where [go_const]: "ctlOffSlot = 16"
definition ctlOffInline :: nat where [go_const]: "ctlOffInline = 20"
definition ctlOffQueueCap :: nat where [go_const]: "ctlOffQueueCap = 24"
definition ctlOffArena :: nat where [go_const]: "ctlOffArena = 32"
definition ctlOffEpoch :: nat where [go_const]: "ctlOffEpoch = 40"
definition ctlBytes :: nat where [go_const]: "ctlBytes = 96"
definition specVersion :: u32 where [go_const]: "specVersion = 1"
definition layoutVersion :: u32 where [go_const]: "layoutVersion = 1"

definition qpMagic :: u32 where [go_const]: "qpMagic = 0x52504251"
definition qpOffMagic :: nat where [go_const]: "qpOffMagic = 0"
definition qpOffCtlLost :: nat where [go_const]: "qpOffCtlLost = 20"
definition qpOffInboundOff :: nat where [go_const]: "qpOffInboundOff = 24"
definition qpOffOutboundOff :: nat where [go_const]: "qpOffOutboundOff = 28"
definition qpOffHeartbeat :: nat where [go_const]: "qpOffHeartbeat = 32"
definition qpBytes :: nat where [go_const]: "qpBytes = 96"

section \<open>The control region\<close>

type_synonym Control = "byte list"

definition AttachControl :: "byte list \<Rightarrow> error + Control" where
  "AttachControl mem =
    (if length mem < ctlBytes then Inl ErrRegion
     else if Uint32 (drop ctlOffMagic mem) \<noteq> ctlMagic then Inl ErrRegion
     else if Uint32 (drop ctlOffSpec mem) \<noteq> specVersion
       \<or> Uint32 (drop ctlOffLayout mem) \<noteq> layoutVersion then Inl ErrRegion
     else
      let slot = Uint32 (drop ctlOffSlot mem);
          inl = Uint32 (drop ctlOffInline mem);
          arena = Uint64 (drop ctlOffArena mem)
      in if slot = 0 \<or> inl > slot \<or> arena = 0 then Inl ErrRegion else Inr mem)"

definition Control_SlotSize :: "Control \<Rightarrow> u32" where
  "Control_SlotSize c = Uint32 (drop ctlOffSlot c)"

definition Control_InlineBudget :: "Control \<Rightarrow> u32" where
  "Control_InlineBudget c = Uint32 (drop ctlOffInline c)"

definition Control_QueueCapacity :: "Control \<Rightarrow> u32" where
  "Control_QueueCapacity c = Uint32 (drop ctlOffQueueCap c)"

definition Control_ArenaSize :: "Control \<Rightarrow> u64" where
  "Control_ArenaSize c = Uint64 (drop ctlOffArena c)"

definition Control_Epoch :: "Control \<Rightarrow> u64" where
  "Control_Epoch c = load64 ctlOffEpoch c"

section \<open>The queue pair\<close>

record QueuePair =
  qpInbound :: Ring
  qpOutbound :: Ring

definition AttachQueuePair :: "byte list \<Rightarrow> error + QueuePair" where
  "AttachQueuePair mem =
    (if length mem < qpBytes then Inl ErrRegion
     else if Uint32 (drop qpOffMagic mem) \<noteq> qpMagic then Inl ErrRegion
     else
      let inOff = Uint32 (drop qpOffInboundOff mem);
          outOff = Uint32 (drop qpOffOutboundOff mem)
      in if unat inOff \<ge> length mem \<or> unat outOff \<ge> length mem \<or> inOff = outOff then Inl ErrRegion
         else
          (case AttachRing mem (unat inOff) of
             Inl e \<Rightarrow> Inl e
           | Inr inbound \<Rightarrow>
               (case AttachRing mem (unat outOff) of
                  Inl e \<Rightarrow> Inl e
                | Inr outbound \<Rightarrow> Inr \<lparr>qpInbound = inbound, qpOutbound = outbound\<rparr>)))"

definition QueuePair_ControlLost :: "byte list \<Rightarrow> bool" where
  "QueuePair_ControlLost mem \<longleftrightarrow> Uint32 (drop qpOffCtlLost mem) \<noteq> 0"

definition QueuePair_SetHeartbeat :: "byte list \<Rightarrow> u64 \<Rightarrow> byte list" where
  "QueuePair_SetHeartbeat mem now = PutUint64 qpOffHeartbeat now mem"

text \<open>\<open>qpairBytes\<close> in Go's \<open>int\<close>; \<open>&^ 63\<close> clears the low six bits.\<close>

definition align64 :: "u64 \<Rightarrow> u64" where
  "align64 n = (n + 63) AND NOT 63"

definition qpairBytes :: "u32 \<Rightarrow> u32 \<Rightarrow> u64" where
  "qpairBytes slotSize capacity =
    (let ring = of_nat ringHdrBytes + ucast slotSize * ucast capacity;
         inOff = align64 (of_nat qpBytes);
         outOff = align64 (inOff + ring)
     in outOff + ring)"

section \<open>What a ring's bytes determine\<close>

text \<open>
  The extent of a ring is its header and its slots. Two regions that agree on the extent hold the
  same queue, so a store outside the extent does not concern the ring.
\<close>

definition ring_extent :: "Ring \<Rightarrow> nat" where
  "ring_extent r = ringHdrBytes + unat (rSlotSize r) * unat (rCapacity r)"

definition ring_end :: "Ring \<Rightarrow> nat" where
  "ring_end r = rBase r + ring_extent r"

lemma ring_end_ge: "rBase r \<le> ring_end r"
  by (simp add: ring_end_def)

lemma load64_extent:
  assumes "slice_at b n m' = slice_at b n m" and "b \<le> off" and "off + 8 \<le> b + n"
  shows "load64 off m' = load64 off m"
proof -
  have inner: "slice_at off 8 x = slice_at (off - b) 8 (slice_at b n x)" for x
    using assms(2,3) by (subst slice_slice_at) simp_all
  have "slice_at off 8 m' = slice_at off 8 m"
    unfolding inner [of m'] inner [of m] assms(1) by (rule refl)
  moreover have "load64 off x = Uint64 (slice_at off 8 x)" for x
    by (simp add: load64_def slice_at_def)
  ultimately show ?thesis by simp
qed

lemma ring_frame:
  assumes "ring_geometry r (length m)" and "length m' = length m"
    and "slice_at (rBase r) (ring_extent r) m' = slice_at (rBase r) (ring_extent r) m"
  shows "Ring_head r m' = Ring_head r m" and "Ring_tail r m' = Ring_tail r m"
    and "ring_ok r m' = ring_ok r m" and "ring_list r m' = ring_list r m"
    and "slot_bytes r m' i = slot_bytes r m i"
proof -
  show head: "Ring_head r m' = Ring_head r m"
    unfolding Ring_head_def
    by (rule load64_extent [OF assms(3)]) (simp_all add: ring_extent_def go_const)
  show tail: "Ring_tail r m' = Ring_tail r m"
    unfolding Ring_tail_def
    by (rule load64_extent [OF assms(3)]) (simp_all add: ring_extent_def go_const)
  show "ring_ok r m' = ring_ok r m"
    by (simp add: ring_ok_def head tail assms(2))
  have slot: "slot_bytes r m' i = slot_bytes r m i" for i
  proof -
    let ?o = "Ring_slot r i" and ?s = "unat (rSlotSize r)"
    have "?o + ?s \<le> rBase r + ring_extent r" and "rBase r \<le> ?o"
      using slot_bounds [OF assms(1), of i] by (simp_all add: ring_extent_def)
    then have inner: "slice_at ?o ?s x = slice_at (?o - rBase r) ?s (slice_at (rBase r) (ring_extent r) x)"
      for x
      by (subst slice_slice_at) simp_all
    show ?thesis
      unfolding slot_bytes_def inner [of m'] inner [of m] assms(3) by (rule refl)
  qed
  then show "slot_bytes r m' i = slot_bytes r m i" .
  show "ring_list r m' = ring_list r m"
    by (simp add: ring_list_def ring_length_def head tail slot)
qed

lemma ring_frame_put_at:
  assumes "ring_geometry r (length m)" and "a + length ys \<le> length m"
    and "a + length ys \<le> rBase r \<or> ring_end r \<le> a"
  shows "ring_ok r (put_at a ys m) = ring_ok r m" and "ring_list r (put_at a ys m) = ring_list r m"
    and "Ring_tail r (put_at a ys m) = Ring_tail r m"
    and "Ring_head r (put_at a ys m) = Ring_head r m"
proof -
  have "ring_end r \<le> length m"
    using assms(1) by (simp add: ring_end_def ring_extent_def ring_geometry_def)
  then have "slice_at (rBase r) (ring_extent r) (put_at a ys m) = slice_at (rBase r) (ring_extent r) m"
    using assms(2,3) slice_put_at_before [of "rBase r" "ring_extent r" a m ys]
      slice_put_at_after [of a ys "rBase r" m "ring_extent r"]
    by (auto simp: ring_end_def)
  note frame = ring_frame [OF assms(1) length_put_at [OF assms(2)] this]
  show "ring_ok r (put_at a ys m) = ring_ok r m" "ring_list r (put_at a ys m) = ring_list r m"
    "Ring_tail r (put_at a ys m) = Ring_tail r m" "Ring_head r (put_at a ys m) = Ring_head r m"
    by (rule frame)+
qed

section \<open>A well laid out queue pair\<close>

text \<open>
  The host lays the two rings out one after the other behind the 96-byte header, as
  \<open>qpairBytes\<close> computes; \<open>qp_ok\<close> says so of an attached pair, together with the rings' own
  invariants.
\<close>

definition qp_ok :: "QueuePair \<Rightarrow> byte list \<Rightarrow> bool" where
  "qp_ok q mem \<longleftrightarrow>
     ring_ok (qpInbound q) mem \<and> ring_ok (qpOutbound q) mem
     \<and> qpBytes \<le> rBase (qpInbound q) \<and> qpBytes \<le> rBase (qpOutbound q)
     \<and> (ring_end (qpInbound q) \<le> rBase (qpOutbound q) \<or> ring_end (qpOutbound q) \<le> rBase (qpInbound q))"

lemma qp_ok_rings:
  "qp_ok q mem \<Longrightarrow> ring_ok (qpInbound q) mem" "qp_ok q mem \<Longrightarrow> ring_ok (qpOutbound q) mem"
  by (simp_all add: qp_ok_def)

lemma qp_ok_length: "qp_ok q mem \<Longrightarrow> qpBytes + ringHdrBytes \<le> length mem"
  by (auto simp: qp_ok_def ring_ok_def ring_geometry_def)

text \<open>The heartbeat is in the header, away from both rings.\<close>

lemma heartbeat_frame:
  assumes "qp_ok q mem"
  shows "qp_ok q (QueuePair_SetHeartbeat mem now)"
    and "ring_list (qpInbound q) (QueuePair_SetHeartbeat mem now) = ring_list (qpInbound q) mem"
    and "ring_list (qpOutbound q) (QueuePair_SetHeartbeat mem now) = ring_list (qpOutbound q) mem"
    and "length (QueuePair_SetHeartbeat mem now) = length mem"
proof -
  have len: "qpOffHeartbeat + 8 \<le> length mem"
    using qp_ok_length [OF assms] by (simp add: go_const)
  then show "length (QueuePair_SetHeartbeat mem now) = length mem"
    by (simp add: QueuePair_SetHeartbeat_def)
  have before: "qpOffHeartbeat + length (le64 now) \<le> rBase r"
    if "r = qpInbound q \<or> r = qpOutbound q" for r
    using assms that by (auto simp: qp_ok_def go_const)
  have geo: "ring_geometry (qpInbound q) (length mem)" "ring_geometry (qpOutbound q) (length mem)"
    using assms by (simp_all add: qp_ok_def ring_ok_def)
  have frames: "ring_ok r (QueuePair_SetHeartbeat mem now) = ring_ok r mem"
    "ring_list r (QueuePair_SetHeartbeat mem now) = ring_list r mem"
    if "r = qpInbound q \<or> r = qpOutbound q" for r
    unfolding QueuePair_SetHeartbeat_def PutUint64_def
    using ring_frame_put_at [of r mem qpOffHeartbeat "le64 now"] before [OF that] geo that len by auto
  show "qp_ok q (QueuePair_SetHeartbeat mem now)"
    using assms by (simp add: qp_ok_def frames)
  show "ring_list (qpInbound q) (QueuePair_SetHeartbeat mem now) = ring_list (qpInbound q) mem"
    "ring_list (qpOutbound q) (QueuePair_SetHeartbeat mem now) = ring_list (qpOutbound q) mem"
    by (simp_all add: frames)
qed

text \<open>A store into one ring leaves the queue of the other alone.\<close>

lemma other_ring_frame:
  assumes "qp_ok q mem" and "(r, o') = (qpInbound q, qpOutbound q) \<or> (r, o') = (qpOutbound q, qpInbound q)"
    and "rBase r \<le> a" and "a + length ys \<le> ring_end r"
  shows "ring_ok o' (put_at a ys mem) = ring_ok o' mem"
    and "ring_list o' (put_at a ys mem) = ring_list o' mem"
proof -
  have geo: "ring_geometry o' (length mem)" and fin: "ring_end r \<le> length mem"
    and apart: "ring_end r \<le> rBase o' \<or> ring_end o' \<le> rBase r"
    using assms(1,2) by (auto simp: qp_ok_def ring_ok_def ring_end_def ring_extent_def ring_geometry_def)
  have fits: "a + length ys \<le> length mem" and
    off: "a + length ys \<le> rBase o' \<or> ring_end o' \<le> a"
    using assms(3,4) fin apart by auto
  show "ring_ok o' (put_at a ys mem) = ring_ok o' mem" "ring_list o' (put_at a ys mem) = ring_list o' mem"
    using ring_frame_put_at [OF geo fits off] by blast+
qed

text \<open>Producing into the outbound ring and consuming from the inbound one, as the client does.\<close>

lemma ring_store_bounds:
  assumes "ring_ok r mem"
  shows "rBase r \<le> Ring_slot r i" and "Ring_slot r i + unat (rSlotSize r) \<le> ring_end r"
    and "rBase r + ringOffHead + 8 \<le> ring_end r" and "rBase r + ringOffTail + 8 \<le> ring_end r"
    and "ring_end r \<le> length mem"
  using slot_bounds [OF ring_ok_geometry [OF assms], of i] assms
  by (simp_all add: ring_end_def ring_extent_def go_const ring_ok_def ring_geometry_def)

lemma qp_produce:
  assumes "qp_ok q mem" and "length x = unat (rSlotSize (qpOutbound q))"
    and "length (ring_list (qpOutbound q) mem) < unat (rCapacity (qpOutbound q))"
  defines "mem' \<equiv> the (ring_produce (qpOutbound q) mem x)"
  shows "qp_ok q mem'" and "ring_list (qpOutbound q) mem' = ring_list (qpOutbound q) mem @ [x]"
    and "ring_list (qpInbound q) mem' = ring_list (qpInbound q) mem" and "length mem' = length mem"
proof -
  let ?r = "qpOutbound q" and ?i = "qpInbound q"
  let ?m = "put_at (Ring_slot ?r (Ring_head ?r mem)) x mem"
  have ok: "ring_ok ?r mem" and "ring_ok ?i mem" using assms(1) by (simp_all add: qp_ok_def)
  have mem': "mem' = ProduceCommit ?r ?m"
    using assms(3) by (simp add: mem'_def ring_produce_def ProduceBegin_iff)
  obtain m1 where "ring_produce ?r mem x = Some m1" "ring_ok ?r m1" "ring_list ?r m1 = ring_list ?r mem @ [x]"
    using ring_queue.produce_room [OF ok assms(2,3)] by blast
  then have mine: "ring_ok ?r mem'" "ring_list ?r mem' = ring_list ?r mem @ [x]"
    by (simp_all add: mem'_def)
  note bounds = ring_store_bounds(1,2) [OF ok, of "Ring_head ?r mem"] ring_store_bounds(3-5) [OF ok]
  have first: "ring_ok ?i ?m = ring_ok ?i mem" "ring_list ?i ?m = ring_list ?i mem"
    using other_ring_frame [OF assms(1), of ?r ?i "Ring_slot ?r (Ring_head ?r mem)" x] bounds assms(2)
    by simp_all
  have fits: "Ring_slot ?r (Ring_head ?r mem) + length x \<le> length mem" using bounds assms(2) by simp
  then have len: "length ?m = length mem" by simp
  have "in_slot ?r 0 x" using assms(2) by (simp add: in_slot_def)
  note fill = ring_list_fill [OF ok this, simplified, OF assms(3) [simplified]]
  have mid: "qp_ok q ?m"
    using assms(1) first fill(1) by (simp add: qp_ok_def)
  have "ring_ok ?i mem' = ring_ok ?i ?m" "ring_list ?i mem' = ring_list ?i ?m"
    unfolding mem' ProduceCommit_def Let_def PutUint64_def
    using other_ring_frame [OF mid, of ?r ?i "rBase ?r + ringOffHead" "le64 (Ring_head ?r ?m + 1)"] bounds
    by simp_all
  with first mine assms(1) show "qp_ok q mem'" "ring_list ?r mem' = ring_list ?r mem @ [x]"
    "ring_list ?i mem' = ring_list ?i mem"
    by (simp_all add: qp_ok_def)
  show "length mem' = length mem"
    using bounds len by (simp add: mem' ProduceCommit_def Let_def)
qed

lemma qp_consume:
  assumes "qp_ok q mem" and "ring_list (qpInbound q) mem \<noteq> []"
  defines "mem' \<equiv> ConsumeCommit (qpInbound q) mem"
  shows "qp_ok q mem'" and "ring_list (qpInbound q) mem' = tl (ring_list (qpInbound q) mem)"
    and "ring_list (qpOutbound q) mem' = ring_list (qpOutbound q) mem" and "length mem' = length mem"
proof -
  let ?o = "qpOutbound q" and ?i = "qpInbound q"
  have ok: "ring_ok ?i mem" using assms(1) by (simp add: qp_ok_def)
  have "0 < ring_length ?i mem" using assms(2) length_ring_list [of ?i mem] by (metis length_greater_0_conv)
  note mine = ring_list_ConsumeCommit [OF ok this, folded mem'_def]
  note bounds = ring_store_bounds(3-5) [OF ok]
  have "ring_ok ?o mem' = ring_ok ?o mem" "ring_list ?o mem' = ring_list ?o mem"
    unfolding mem'_def ConsumeCommit_def Let_def PutUint64_def
    using other_ring_frame [OF assms(1), of ?i ?o "rBase ?i + ringOffTail" "le64 (Ring_tail ?i mem + 1)"] bounds
    by simp_all
  with mine assms(1) show "qp_ok q mem'" "ring_list ?i mem' = tl (ring_list ?i mem)"
    "ring_list ?o mem' = ring_list ?o mem"
    by (simp_all add: qp_ok_def)
  show "length mem' = length mem"
    using bounds by (simp add: mem'_def ConsumeCommit_def Let_def)
qed

section \<open>The size of a queue-pair region\<close>

lemma align64_exact:
  assumes "unat n + 63 < 2 ^ 64"
  shows "unat (align64 n) = (unat n + 63) div 64 * 64"
proof -
  have "NOT 63 = NOT (mask 6 :: u64)" by (simp add: mask_eq_exp_minus_1)
  then have "align64 n = drop_bit 6 (n + 63) * 64"
    unfolding align64_def by (simp only: mask_clear push_bit_eq_mult) simp
  moreover have "unat (n + 63) = unat n + 63"
    using assms by (simp add: unat_word_ariths)
  moreover have "unat (drop_bit 6 (n + 63)) = unat (n + 63) div 64"
    by (simp add: unat_drop_bit_eq drop_bit_eq_div unat_div)
  ultimately show ?thesis
    using assms by (simp add: unat_word_ariths)
qed

text \<open>The two rings as the host lays them out: the inbound one at the first multiple of 64 after the
  header, the outbound one at the first multiple of 64 after the inbound one.\<close>

definition laid_out_ring :: "nat \<Rightarrow> u32 \<Rightarrow> u32 \<Rightarrow> Ring" where
  "laid_out_ring base slot cap = \<lparr>rBase = base, rSlotSize = slot, rCapacity = cap, rMask = cap - 1,
     rSlotsOff = of_nat ringHdrBytes\<rparr>"

definition laid_out_pair :: "u32 \<Rightarrow> u32 \<Rightarrow> QueuePair" where
  "laid_out_pair slot cap =
    (let inbound = laid_out_ring 128 slot cap
     in \<lparr>qpInbound = inbound,
         qpOutbound = laid_out_ring ((ring_end inbound + 63) div 64 * 64) slot cap\<rparr>)"

lemma ring_end_laid_out: "ring_end (laid_out_ring base slot cap) = base + ringHdrBytes + unat slot * unat cap"
  by (simp add: laid_out_ring_def ring_end_def ring_extent_def)

lemma qpairBytes_exact:
  assumes "unat slot * unat cap \<le> 2 ^ 61"
  shows "unat (qpairBytes slot cap) = ring_end (qpOutbound (laid_out_pair slot cap))"
proof -
  let ?p = "unat slot * unat cap"
  have ring: "unat (of_nat ringHdrBytes + ucast slot * ucast cap :: u64) = 192 + ?p"
    using assms by (simp add: ringHdrBytes_def unat_word_ariths)
  have inOff: "align64 (of_nat qpBytes) = 128"
    using align64_exact [of "of_nat qpBytes"] by (simp add: qpBytes_def word_unat_eq_iff)
  have sum: "unat (128 + (of_nat ringHdrBytes + ucast slot * ucast cap) :: u64) = 320 + ?p"
    using ring assms by (simp add: unat_plus_if')
  have out: "unat (align64 (128 + (of_nat ringHdrBytes + ucast slot * ucast cap))) = (320 + ?p + 63) div 64 * 64"
    using align64_exact [of "128 + (of_nat ringHdrBytes + ucast slot * ucast cap)"] sum assms by simp
  moreover have "(320 + ?p + 63) div 64 * 64 \<le> 320 + ?p + 63" by simp
  ultimately have "unat (qpairBytes slot cap) = (320 + ?p + 63) div 64 * 64 + (192 + ?p)"
    using ring assms unfolding qpairBytes_def Let_def inOff by (simp add: unat_plus_if')
  then show ?thesis
    by (simp add: laid_out_pair_def Let_def laid_out_ring_def ring_end_def ring_extent_def go_const)
qed

lemma pair_geometry:
  assumes "unat slot * unat cap \<le> 2 ^ 61" and "\<exists>k. 1 \<le> k \<and> k < 32 \<and> cap = 2 ^ k" and "slot \<noteq> 0"
    and "q = laid_out_pair slot cap"
  shows "ring_geometry (qpInbound q) (unat (qpairBytes slot cap))
     \<and> ring_geometry (qpOutbound q) (unat (qpairBytes slot cap))
     \<and> ring_end (qpOutbound q) = unat (qpairBytes slot cap)
     \<and> qpBytes \<le> rBase (qpInbound q) \<and> ring_end (qpInbound q) \<le> rBase (qpOutbound q)
     \<and> 64 dvd rBase (qpInbound q) \<and> 64 dvd rBase (qpOutbound q)
     \<and> 0 < sint (qpairBytes slot cap)"
proof -
  have size: "unat (qpairBytes slot cap) = ring_end (qpOutbound q)"
    using qpairBytes_exact [OF assms(1)] assms(4) by simp
  let ?i = "128 + ringHdrBytes + unat slot * unat cap"
  have q: "qpInbound q = laid_out_ring 128 slot cap"
    "qpOutbound q = laid_out_ring ((?i + 63) div 64 * 64) slot cap"
    using assms(4) by (simp_all add: laid_out_pair_def Let_def ring_end_laid_out)
  have up: "?i \<le> (?i + 63) div 64 * 64" and down: "(?i + 63) div 64 * 64 \<le> ?i + 63" by arith+
  have "ring_end (qpOutbound q) < 2 ^ 63"
    unfolding q ring_end_laid_out using down assms(1) by (simp add: go_const)
  then have pos: "0 < sint (qpairBytes slot cap)"
    using go_int_less [of "qpairBytes slot cap" 0] size by (simp add: q ring_end_laid_out go_const)
  show ?thesis
    unfolding size using up assms(2,3) pos
    unfolding q by (simp add: ring_end_laid_out)
      (simp add: ring_geometry_def laid_out_ring_def unat_gt_0 go_const)
qed

text \<open>A zeroed region holds two empty rings.\<close>

lemma load64_zero:
  assumes "off + 8 \<le> n"
  shows "load64 off (replicate n 0) = 0"
proof -
  have "drop off (replicate n (0 :: byte)) = replicate (n - off) 0"
    by (rule drop_replicate)
  moreover have "replicate (n - off) (0 :: byte) ! i = 0" if "i < 8" for i
    using that assms by simp
  ultimately show ?thesis
    unfolding load64_def Uint64_def by simp
qed

lemma qp_ok_zero:
  assumes "unat slot * unat cap \<le> 2 ^ 61" and "\<exists>k. 1 \<le> k \<and> k < 32 \<and> cap = 2 ^ k" and "slot \<noteq> 0"
    and "unat (qpairBytes slot cap) \<le> n"
  shows "qp_ok (laid_out_pair slot cap) (replicate n 0)"
    and "ring_list (qpInbound (laid_out_pair slot cap)) (replicate n 0) = []"
    and "ring_list (qpOutbound (laid_out_pair slot cap)) (replicate n 0) = []"
proof -
  let ?q = "laid_out_pair slot cap" and ?m = "replicate n (0 :: byte)"
  note lay = pair_geometry [OF assms(1,2,3) refl]
  have geo: "ring_geometry r n" if "r = qpInbound ?q \<or> r = qpOutbound ?q" for r
    using lay assms(4) that by (auto simp: ring_geometry_def)
  have zero: "Ring_head r ?m = 0 \<and> Ring_tail r ?m = 0" if "r = qpInbound ?q \<or> r = qpOutbound ?q" for r
    using ring_mem_bounds [OF geo [OF that]]
    by (simp add: Ring_head_def Ring_tail_def load64_zero add.assoc)
  have ok: "ring_ok r ?m \<and> ring_list r ?m = []" if "r = qpInbound ?q \<or> r = qpOutbound ?q" for r
    using zero [OF that] geo [OF that] by (simp add: ring_ok_def ring_list_def ring_length_def)
  then show "qp_ok ?q ?m" "ring_list (qpInbound ?q) ?m = []" "ring_list (qpOutbound ?q) ?m = []"
    using lay ring_end_ge [of "qpInbound ?q"] by (auto simp: qp_ok_def)
qed

lemma attach_queue_pair_facts:
  "AttachQueuePair mem = Inr q \<longleftrightarrow>
     qpBytes \<le> length mem \<and> Uint32 (drop qpOffMagic mem) = qpMagic
     \<and> rBase (qpInbound q) = unat (Uint32 (drop qpOffInboundOff mem))
     \<and> rBase (qpOutbound q) = unat (Uint32 (drop qpOffOutboundOff mem))
     \<and> rBase (qpInbound q) \<noteq> rBase (qpOutbound q)
     \<and> ring_ok (qpInbound q) mem \<and> ring_header_says (qpInbound q) mem
     \<and> ring_ok (qpOutbound q) mem \<and> ring_header_says (qpOutbound q) mem"
    (is "?attach \<longleftrightarrow> ?good")
proof -
  have inside: "rBase r < length mem" if "ring_ok r mem" for r
    using that by (auto simp: ring_ok_def ring_geometry_def go_const)
  show ?thesis
  proof
    assume ?attach
    then show ?good
      by (auto simp: AttachQueuePair_def Let_def AttachRing_iff word_unat_eq_iff
          split: if_splits sum.splits)
  next
    assume g: ?good
    have ib: "AttachRing mem (unat (Uint32 (drop qpOffInboundOff mem))) = Inr (qpInbound q)"
      and ob: "AttachRing mem (unat (Uint32 (drop qpOffOutboundOff mem))) = Inr (qpOutbound q)"
      using g by (simp_all add: AttachRing_iff)
    then show ?attach
      using g inside [of "qpInbound q"] inside [of "qpOutbound q"]
      by (auto simp: AttachQueuePair_def Let_def)
  qed
qed

section \<open>Properties\<close>

text \<open>C24: A queue-pair region is adopted exactly when its magic is right, its two ring offsets are
  different and inside the region, and at each offset there is a ring whose header describes a
  geometry that fits the mapped bytes; the two attached rings are the ones at those offsets.\<close>

theorem attach_queue_pair_iff:
  "AttachQueuePair mem = Inr q \<longleftrightarrow>
     qpBytes \<le> length mem \<and> Uint32 (drop qpOffMagic mem) = qpMagic
     \<and> rBase (qpInbound q) = unat (Uint32 (drop qpOffInboundOff mem))
     \<and> rBase (qpOutbound q) = unat (Uint32 (drop qpOffOutboundOff mem))
     \<and> rBase (qpInbound q) \<noteq> rBase (qpOutbound q)
     \<and> ring_ok (qpInbound q) mem \<and> ring_header_says (qpInbound q) mem
     \<and> ring_ok (qpOutbound q) mem \<and> ring_header_says (qpOutbound q) mem"
  by (rule attach_queue_pair_facts)

text \<open>The size a client maps for its queue pair is the one the layout needs. As long as the slots
  of one ring take at most \<open>2^61\<close> bytes (so that Go's \<open>int\<close> does not overflow), a region of
  \<open>qpairBytes\<close> bytes holds both rings behind the header, on 64-byte boundaries, disjoint and with no
  byte to spare after the second one.\<close>

theorem qpair_layout:
  assumes "unat slot * unat cap \<le> 2 ^ 61" and "\<exists>k. 1 \<le> k \<and> k < 32 \<and> cap = 2 ^ k" and "slot \<noteq> 0"
    and "q = laid_out_pair slot cap"
  shows "ring_geometry (qpInbound q) (unat (qpairBytes slot cap))
     \<and> ring_geometry (qpOutbound q) (unat (qpairBytes slot cap))
     \<and> ring_end (qpOutbound q) = unat (qpairBytes slot cap)
     \<and> qpBytes \<le> rBase (qpInbound q) \<and> ring_end (qpInbound q) \<le> rBase (qpOutbound q)
     \<and> 64 dvd rBase (qpInbound q) \<and> 64 dvd rBase (qpOutbound q)
     \<and> 0 < sint (qpairBytes slot cap)"
  by (rule pair_geometry [OF assms])

lemma qpair_layout_witness: "ring_end (qpOutbound (laid_out_pair 64 8)) = unat (qpairBytes 64 8)"
proof -
  have "\<exists>k. 1 \<le> k \<and> k < 32 \<and> (8 :: u32) = 2 ^ k" by (rule exI [of _ 3]) simp
  then show ?thesis using qpair_layout [of 64 8 "laid_out_pair 64 8"] by simp
qed

text \<open>Writing a client's heartbeat concerns neither ring: with the rings behind the header, both keep
  their invariant and their contents, and the host reads back the value written.\<close>

theorem heartbeat_is_isolated:
  assumes "qp_ok q mem"
  shows "qp_ok q (QueuePair_SetHeartbeat mem now)
     \<and> ring_list (qpInbound q) (QueuePair_SetHeartbeat mem now) = ring_list (qpInbound q) mem
     \<and> ring_list (qpOutbound q) (QueuePair_SetHeartbeat mem now) = ring_list (qpOutbound q) mem
     \<and> load64 qpOffHeartbeat (QueuePair_SetHeartbeat mem now) = now
     \<and> QueuePair_ControlLost (QueuePair_SetHeartbeat mem now) = QueuePair_ControlLost mem"
proof -
  have len: "qpOffHeartbeat + 8 \<le> length mem"
    using qp_ok_length [OF assms] by (simp add: go_const)
  then have "load64 qpOffHeartbeat (QueuePair_SetHeartbeat mem now) = now"
    by (simp add: QueuePair_SetHeartbeat_def load64_PutUint64)
  moreover have "QueuePair_ControlLost (QueuePair_SetHeartbeat mem now) = QueuePair_ControlLost mem"
    using len unfolding QueuePair_ControlLost_def QueuePair_SetHeartbeat_def PutUint64_def
    by (subst Uint32_drop_put_at) (simp_all add: go_const)
  ultimately show ?thesis using heartbeat_frame [OF assms] by simp
qed

lemma heartbeat_is_isolated_witness:
  "qp_ok (laid_out_pair 64 8) (QueuePair_SetHeartbeat (replicate 2000 0) 77)"
proof -
  have eight: "\<exists>k. 1 \<le> k \<and> k < 32 \<and> (8 :: u32) = 2 ^ k" by (rule exI [of _ 3]) simp
  have "unat (qpairBytes 64 8) \<le> 2000" by (simp add: qpairBytes_exact laid_out_pair_def Let_def
        laid_out_ring_def ring_end_def ring_extent_def go_const)
  then have "qp_ok (laid_out_pair 64 8) (replicate 2000 0)"
    by (intro qp_ok_zero [OF _ eight]) simp_all
  from heartbeat_is_isolated [OF this, of 77] show ?thesis by blast
qed

end
