(* ===== verification/Client.thy ===== *)
theory Client
  imports Wire Region
begin

text \<open>
  An attached bus client, \<open>server-go/bus/client.go\<close>: the events it emits into its outbound ring and
  takes from its inbound ring. The client owns its struct; the control region and the queue-pair
  region are shared with the host, so every operation takes their bytes as they are at the call
  and returns the queue-pair region as the client leaves it.
\<close>

unbundle bit_operations_syntax

section \<open>State\<close>

text \<open>
  The Go struct. \<open>control\<close> is nil exactly in the client that a refused attach returns; \<open>qp\<close> is set
  together with it. The three mappings are given by whether they are held (\<open>Detach\<close> sets the
  slices to nil); the bytes are in \<open>bus_mem\<close>.
\<close>

type_synonym AttachStatus = u32

definition AttachOK :: AttachStatus where [go_const]: "AttachOK = 0"
definition AttachDeniedPolicy :: AttachStatus where [go_const]: "AttachDeniedPolicy = 1"
definition AttachDeniedVersion :: AttachStatus where [go_const]: "AttachDeniedVersion = 2"
definition AttachDeniedNoSlot :: AttachStatus where [go_const]: "AttachDeniedNoSlot = 3"
definition AttachProtocol :: AttachStatus where [go_const]: "AttachProtocol = 4"

record Client =
  cHandle :: u32
  cStatus :: AttachStatus
  cSlotSize :: u32
  cInlineBudget :: u32
  cQueueCapacity :: u32
  cArenaSize :: u64
  cAttachedEpoch :: u64
  cControl :: bool
  cQp :: QueuePair
  cCtlMem :: bool
  cArena :: bool
  cQpMem :: bool
  cPendingRead :: bool

record bus_mem =
  bmCtl :: "byte list"
  bmQp :: "byte list"

record Event =
  evFrame :: Frame
  evPayload :: "byte list"

section \<open>Liveness\<close>

definition Client_EpochChanged :: "Client \<Rightarrow> bus_mem \<Rightarrow> bool" where
  "Client_EpochChanged c m \<longleftrightarrow> cControl c \<and> Control_Epoch (bmCtl m) \<noteq> cAttachedEpoch c"

text \<open>\<open>c.qp\<close> is dereferenced without a test: on a client without regions both calls panic.\<close>

definition Client_Heartbeat :: "Client \<Rightarrow> u64 \<Rightarrow> bus_mem \<Rightarrow> bus_mem outcome" where
  "Client_Heartbeat c now m =
    (if \<not> cControl c then Panic else Return (m\<lparr>bmQp := QueuePair_SetHeartbeat (bmQp m) now\<rparr>))"

definition Client_ControlLost :: "Client \<Rightarrow> bus_mem \<Rightarrow> bool outcome" where
  "Client_ControlLost c m = (if \<not> cControl c then Panic else Return (QueuePair_ControlLost (bmQp m)))"

definition moduleInlineBudget :: "Client \<Rightarrow> u32" where
  "moduleInlineBudget c = cInlineBudget c"

section \<open>Sending\<close>

definition emit_frame :: "Client \<Rightarrow> u16 \<Rightarrow> u32 \<Rightarrow> u64 \<Rightarrow> byte list \<Rightarrow> Frame" where
  "emit_frame c flags kind corr payload =
    (let f = zero_frame\<lparr>fHdrFlags := flags, fWireVersion := WireVersion, fEventKind := kind,
           fCorrelationID := corr, fSrcHandle := cHandle c\<rparr>
     in if length payload > 0
        then f\<lparr>fHdrFlags := fHdrFlags f OR FInline, fPayloadLen := of_nat (length payload),
               fPayloadRef := of_nat HdrLen\<rparr>
        else f)"

text \<open>
  The slot \<open>slot\<close> is the window of the outbound ring at \<open>off\<close>; \<open>copy\<close> stops at the end of the
  slot. The capacity test of the payload compares Go \<open>int\<close>s.
\<close>

definition emit :: "Client \<Rightarrow> u16 \<Rightarrow> u32 \<Rightarrow> u64 \<Rightarrow> byte list \<Rightarrow> bus_mem \<Rightarrow> error option \<times> bus_mem" where
  "emit c flags kind corr payload m =
    (if \<not> cControl c then (Some ErrProtocol, m)
     else if length payload > 0
       \<and> ((of_nat (length payload) :: u32) > cInlineBudget c
          \<or> HdrLen + length payload > unat (cSlotSize c)) then (Some ErrPayload, m)
     else if Client_EpochChanged c m then (Some ErrEpoch, m)
     else
      let r = qpOutbound (cQp c)
      in case ProduceBegin r (bmQp m) of
           None \<Rightarrow> (Some ErrWouldBlock, m)
         | Some off \<Rightarrow>
            let (n, slot) = Frame_Encode (emit_frame c flags kind corr payload)
                   (slice_at off (unat (rSlotSize r)) (bmQp m));
                mem = put_at off slot (bmQp m)
            in if n \<noteq> HdrLen then (Some ErrProtocol, m\<lparr>bmQp := mem\<rparr>)
               else
                let mem = (if length payload > 0
                      then put_at (off + HdrLen) (take (unat (rSlotSize r) - HdrLen) payload) mem
                      else mem)
                in (None, m\<lparr>bmQp := ProduceCommit r mem\<rparr>))"

definition Publish :: "Client \<Rightarrow> u32 \<Rightarrow> byte list \<Rightarrow> bus_mem \<Rightarrow> error option \<times> bus_mem" where
  "Publish c kind payload m = emit c FNotification kind 0 payload m"

definition RequestFragment ::
  "Client \<Rightarrow> u32 \<Rightarrow> u64 \<Rightarrow> byte list \<Rightarrow> bool \<Rightarrow> bus_mem \<Rightarrow> error option \<times> bus_mem" where
  "RequestFragment c kind correlation payload has_more m =
    (if correlation = 0 then (Some ErrProtocol, m)
     else if has_more \<and> length payload = 0 then (Some ErrProtocol, m)
     else emit c (if has_more then FRequest OR FMore else FRequest) kind correlation payload m)"

definition Client_Request ::
  "Client \<Rightarrow> u32 \<Rightarrow> u64 \<Rightarrow> byte list \<Rightarrow> bus_mem \<Rightarrow> error option \<times> bus_mem" where
  "Client_Request c kind correlation payload m = RequestFragment c kind correlation payload False m"

definition ReplyFragment ::
  "Client \<Rightarrow> u32 \<Rightarrow> u64 \<Rightarrow> byte list \<Rightarrow> bool \<Rightarrow> bus_mem \<Rightarrow> error option \<times> bus_mem" where
  "ReplyFragment c kind correlation payload has_more m =
    (if correlation = 0 then (Some ErrProtocol, m)
     else if has_more \<and> length payload = 0 then (Some ErrProtocol, m)
     else emit c (if has_more then FReply OR FMore else FReply) kind correlation payload m)"

definition Client_Reply ::
  "Client \<Rightarrow> u32 \<Rightarrow> u64 \<Rightarrow> byte list \<Rightarrow> bus_mem \<Rightarrow> error option \<times> bus_mem" where
  "Client_Reply c kind correlation payload m = ReplyFragment c kind correlation payload False m"

definition Client_Cancel :: "Client \<Rightarrow> u32 \<Rightarrow> u64 \<Rightarrow> bus_mem \<Rightarrow> error option \<times> bus_mem" where
  "Client_Cancel c kind correlation m =
    (if correlation = 0 then (Some ErrProtocol, m) else emit c FCancel kind correlation [] m)"

section \<open>Receiving\<close>

text \<open>
  The result of \<open>Poll\<close>: an event, none, an error, or a panic. The payload of an event is a window of
  the slot; here it is the bytes of the window. Slicing \<open>slot[lo:hi]\<close> panics unless
  \<open>lo <= hi <= cap(slot)\<close>, and the capacity of a slot reaches to the end of the mapping.
\<close>

datatype pollResult = PollEvent Event | PollNone | PollErr error | PollPanic

definition Poll :: "Client \<Rightarrow> bus_mem \<Rightarrow> pollResult \<times> Client \<times> bus_mem" where
  "Poll c m =
    (if \<not> cControl c then (PollErr ErrProtocol, c, m)
     else if Client_EpochChanged c m then (PollErr ErrEpoch, c, m)
     else
      let r = qpInbound (cQp c);
          (c, m) = (if cPendingRead c
             then (c\<lparr>cPendingRead := False\<rparr>, m\<lparr>bmQp := ConsumeCommit r (bmQp m)\<rparr>)
             else (c, m))
      in case ConsumeBegin r (bmQp m) of
           None \<Rightarrow> (PollNone, c, m)
         | Some off \<Rightarrow>
            (case Decode (slice_at off (unat (rSlotSize r)) (bmQp m)) zero_frame of
               (res, f) \<Rightarrow>
                 if res \<noteq> OK then (PollNone, c, m\<lparr>bmQp := ConsumeCommit r (bmQp m)\<rparr>)
                 else if fHdrFlags f AND FInline \<noteq> 0 \<and> fPayloadLen f > 0
                     \<and> fPayloadRef f + ucast (fPayloadLen f) \<le> ucast (cSlotSize c)
                 then
                  let lo = fPayloadRef f; hi = fPayloadRef f + ucast (fPayloadLen f)
                  in if lo \<le> hi \<and> unat hi \<le> length (bmQp m) - off
                     then (PollEvent \<lparr>evFrame = f,
                             evPayload = slice_at (off + unat lo) (unat hi - unat lo) (bmQp m)\<rparr>,
                           c\<lparr>cPendingRead := True\<rparr>, m)
                     else (PollPanic, c, m)
                 else (PollEvent \<lparr>evFrame = f, evPayload = []\<rparr>, c\<lparr>cPendingRead := True\<rparr>, m)))"

section \<open>An attached client\<close>

text \<open>
  The host lays the queue pair out with the geometry it announced in the attach reply, and a slot
  holds at least a frame header.
\<close>

definition client_ok :: "Client \<Rightarrow> bus_mem \<Rightarrow> bool" where
  "client_ok c m \<longleftrightarrow> cControl c \<and> qp_ok (cQp c) (bmQp m)
     \<and> rSlotSize (qpInbound (cQp c)) = cSlotSize c \<and> rSlotSize (qpOutbound (cQp c)) = cSlotSize c
     \<and> HdrLen \<le> unat (cSlotSize c)"

definition outbound :: "Client \<Rightarrow> bus_mem \<Rightarrow> byte list list" where
  "outbound c m = ring_list (qpOutbound (cQp c)) (bmQp m)"

definition inbound :: "Client \<Rightarrow> bus_mem \<Rightarrow> byte list list" where
  "inbound c m = ring_list (qpInbound (cQp c)) (bmQp m)"

text \<open>What the receiver of a slot makes of it.\<close>

definition slot_event :: "u32 \<Rightarrow> byte list \<Rightarrow> Event option" where
  "slot_event slotSize item =
    (case decode_frame item of
       None \<Rightarrow> None
     | Some f \<Rightarrow> Some \<lparr>evFrame = f, evPayload =
         (if fHdrFlags f AND FInline \<noteq> 0 \<and> fPayloadLen f > 0
            \<and> fPayloadRef f + ucast (fPayloadLen f) \<le> ucast slotSize
          then slice_at (unat (fPayloadRef f)) (unat (fPayloadLen f)) item else [])\<rparr>)"

lemma client_okD:
  assumes "client_ok c m"
  shows "cControl c" and "qp_ok (cQp c) (bmQp m)"
    and "ring_ok (qpOutbound (cQp c)) (bmQp m)" and "ring_ok (qpInbound (cQp c)) (bmQp m)"
    and "rSlotSize (qpInbound (cQp c)) = cSlotSize c" and "rSlotSize (qpOutbound (cQp c)) = cSlotSize c"
    and "HdrLen \<le> unat (cSlotSize c)"
  using assms qp_ok_rings [of "cQp c" "bmQp m"] by (simp_all add: client_ok_def)

text \<open>The frame of each kind of message a client sends is valid unless the payload is too long.\<close>

definition sendable :: "u16 \<Rightarrow> u64 \<Rightarrow> byte list \<Rightarrow> bool" where
  "sendable flags corr payload \<longleftrightarrow>
     flags = FNotification \<and> corr = 0
   \<or> flags \<in> {FRequest, FReply, FCancel} \<and> corr \<noteq> 0
   \<or> flags \<in> {FRequest OR FMore, FReply OR FMore} \<and> corr \<noteq> 0 \<and> payload \<noteq> []"

lemma emit_frame_valid:
  assumes "sendable flags corr payload" and "length payload < 2 ^ 32"
  shows "Validate (emit_frame c flags kind corr payload) = OK \<longleftrightarrow> length payload \<le> 2 ^ 20"
proof -
  have unat_len: "unat (of_nat (length payload) :: u32) = length payload"
    using assms(2) by (simp add: unat_of_nat)
  have len: "MaxPayload < of_nat (length payload) \<longleftrightarrow> \<not> length payload \<le> 2 ^ 20"
    by (simp add: MaxPayload_def word_less_nat_alt unat_len not_le)
  have zero: "(of_nat (length payload) :: u32) = 0 \<longleftrightarrow> payload = []"
    using unat_len by (simp add: unat_eq_0 [symmetric])
  have pos: "0 < (of_nat (length payload) :: u32) \<longleftrightarrow> payload \<noteq> []"
    using zero word_neq_0_conv by blast
  show ?thesis
  proof (cases "payload = []")
    case True
    then show ?thesis using assms(1) unfolding sendable_def
      by (auto simp: emit_frame_def zero_frame_def Validate_def exactlyOne_def go_const Let_def)
  next
    case False
    then have f: "emit_frame c flags kind corr payload = zero_frame\<lparr>fHdrFlags := flags OR FInline,
        fWireVersion := WireVersion, fEventKind := kind, fCorrelationID := corr, fSrcHandle := cHandle c,
        fPayloadLen := of_nat (length payload), fPayloadRef := 64\<rparr>"
      by (simp add: emit_frame_def Let_def go_const)
    have "Validate (emit_frame c flags kind corr payload) = OK \<longleftrightarrow> \<not> MaxPayload < of_nat (length payload)"
      using assms(1) pos zero False unfolding sendable_def f Validate_def Let_def
      by (auto simp: zero_frame_def exactlyOne_def FInline_def FArena_def FNotification_def
          FRequest_def FReply_def FCancel_def FControl_def FMore_def fPlacementMask_def
          fPatternMask_def fKnownMask_def)
    with len show ?thesis by simp
  qed
qed

text \<open>
  The specification of \<open>emit\<close>: the first test that fails names the error, in unbounded arithmetic;
  otherwise the outbound queue grows by one slot that carries the frame and the payload.
\<close>

definition emit_error :: "Client \<Rightarrow> byte list \<Rightarrow> bus_mem \<Rightarrow> error option" where
  "emit_error c payload m =
    (if payload \<noteq> [] \<and> (length payload > unat (cInlineBudget c)
        \<or> HdrLen + length payload > unat (cSlotSize c)) then Some ErrPayload
     else if Control_Epoch (bmCtl m) \<noteq> cAttachedEpoch c then Some ErrEpoch
     else if length (outbound c m) = unat (rCapacity (qpOutbound (cQp c))) then Some ErrWouldBlock
     else if length payload > 2 ^ 20 then Some ErrProtocol
     else None)"

lemma payload_test:
  "(0 < length payload \<and> ((of_nat (length payload) :: u32) > budget \<or> HdrLen + length payload > unat slot))
   \<longleftrightarrow> payload \<noteq> [] \<and> (length payload > unat budget \<or> HdrLen + length payload > unat slot)"
  for budget slot :: u32
proof -
  have "unat slot < 2 ^ LENGTH(32)" by (rule unsigned_less)
  then have "(of_nat (length payload) :: u32) > budget \<longleftrightarrow> length payload > unat budget"
    if "HdrLen + length payload \<le> unat slot"
    using that by (simp add: word_less_nat_alt unat_of_nat)
  then show ?thesis by (auto simp: not_le)
qed

definition emit_item :: "Client \<Rightarrow> u16 \<Rightarrow> u32 \<Rightarrow> u64 \<Rightarrow> byte list \<Rightarrow> bus_mem \<Rightarrow> byte list" where
  "emit_item c flags kind corr payload m =
    (let r = qpOutbound (cQp c)
     in frame_header (emit_frame c flags kind corr payload) @ payload
        @ drop (HdrLen + length payload) (slot_bytes r (bmQp m) (Ring_head r (bmQp m))))"

lemma emit_exact:
  assumes "client_ok c m" and "sendable flags corr payload"
  shows "emit c flags kind corr payload m =
    (case emit_error c payload m of
       Some e \<Rightarrow> (Some e, m)
     | None \<Rightarrow> (None, m\<lparr>bmQp := the (ring_produce (qpOutbound (cQp c)) (bmQp m)
                              (emit_item c flags kind corr payload m))\<rparr>))"
proof -
  let ?r = "qpOutbound (cQp c)" and ?f = "emit_frame c flags kind corr payload"
  let ?off = "Ring_slot ?r (Ring_head ?r (bmQp m))" and ?s = "unat (cSlotSize c)"
  let ?old = "slot_bytes ?r (bmQp m) (Ring_head ?r (bmQp m))"
  note ok = client_okD [OF assms(1)]
  note geo = ring_ok_geometry [OF ok(3)]
  have epoch: "Client_EpochChanged c m \<longleftrightarrow> Control_Epoch (bmCtl m) \<noteq> cAttachedEpoch c"
    by (simp add: Client_EpochChanged_def ok(1))
  have full: "length (outbound c m) = unat (rCapacity ?r) \<longleftrightarrow> ProduceBegin ?r (bmQp m) = None"
    using ring_length_le [OF ok(3)] by (auto simp: outbound_def ProduceBegin_iff)
  have fits: "?off + ?s \<le> length (bmQp m)"
    using slot_bounds(2) [OF geo] by (simp add: ok(6))
  have old: "slice_at ?off ?s (bmQp m) = ?old" and len: "length ?old = ?s"
    using fits by (simp_all add: slot_bytes_def ok(6))
  show ?thesis
  proof (cases "payload \<noteq> [] \<and> (length payload > unat (cInlineBudget c) \<or> HdrLen + length payload > ?s)
      \<or> Client_EpochChanged c m \<or> ProduceBegin ?r (bmQp m) = None")
    case True
    then show ?thesis
      unfolding emit_def payload_test by (auto simp: ok(1) emit_error_def epoch full Let_def)
  next
    case False
    then have small: "payload \<noteq> [] \<Longrightarrow> HdrLen + length payload \<le> ?s" by auto
    have "unat (cSlotSize c) < 2 ^ LENGTH(32)" by (rule unsigned_less)
    with small have "length payload < 2 ^ 32" by (cases "payload = []") auto
    note valid = emit_frame_valid [OF assms(2) this, of c kind]
    have begin_: "ProduceBegin ?r (bmQp m) = Some ?off"
      using False by (simp add: ProduceBegin_iff split: if_splits)
    have err: "emit_error c payload m = (if length payload \<le> 2 ^ 20 then None else Some ErrProtocol)"
      using False by (auto simp: emit_error_def epoch full)
    have pass: "\<not> (payload \<noteq> [] \<and> (length payload > unat (cInlineBudget c) \<or> HdrLen + length payload > ?s))"
      "\<not> Client_EpochChanged c m"
      using False by blast+
    have reach: "emit c flags kind corr payload m =
      (let (n, slot) = Frame_Encode ?f ?old; mem = put_at ?off slot (bmQp m)
       in if n \<noteq> HdrLen then (Some ErrProtocol, m\<lparr>bmQp := mem\<rparr>)
          else (None, m\<lparr>bmQp := ProduceCommit ?r (if length payload > 0
             then put_at (?off + HdrLen) (take (?s - HdrLen) payload) mem else mem)\<rparr>))"
      unfolding emit_def payload_test
      by (simp only: ok(1,6) Let_def begin_ old pass if_False option.case simp_thms)
    show ?thesis
    proof (cases "length payload \<le> 2 ^ 20")
      case True
      then have enc: "Frame_Encode ?f ?old = (HdrLen, frame_header ?f @ drop HdrLen ?old)"
        using valid ok(7) by (intro Frame_Encode_eq) (simp_all add: len)
      have "(if length payload > 0
          then put_at (?off + HdrLen) (take (?s - HdrLen) payload) (put_at ?off (frame_header ?f @ drop HdrLen ?old) (bmQp m))
          else put_at ?off (frame_header ?f @ drop HdrLen ?old) (bmQp m))
        = put_at ?off (emit_item c flags kind corr payload m) (bmQp m)"
      proof (cases "payload = []")
        case True
        then show ?thesis by (simp add: emit_item_def Let_def)
      next
        case False
        have "put_at HdrLen payload (frame_header ?f @ drop HdrLen ?old) = emit_item c flags kind corr payload m"
          by (simp add: put_at_skip put_at_front emit_item_def Let_def add.commute)
        then show ?thesis
          using False small [OF False] fits ok(7) len
          by (simp add: put_at_inside)
      qed
      then show ?thesis
        using True by (simp add: reach enc err ring_produce_def begin_)
    next
      case False
      then have "Frame_Encode ?f ?old = (0, ?old)"
        using valid by (simp add: Frame_Encode_def)
      then show ?thesis
        using False fits by (simp add: reach err go_const flip: old)
    qed
  qed
qed

section \<open>Sending appends one event\<close>

lemma emit_frame_fields [simp]:
  "fEventKind (emit_frame c flags kind corr payload) = kind"
  "fCorrelationID (emit_frame c flags kind corr payload) = corr"
  "fSrcHandle (emit_frame c flags kind corr payload) = cHandle c"
  by (simp_all add: emit_frame_def zero_frame_def Let_def)

lemma slot_event_emit_item:
  assumes "client_ok c m" and "sendable flags corr payload" and "emit_error c payload m = None"
  shows "slot_event (cSlotSize c) (emit_item c flags kind corr payload m)
       = Some \<lparr>evFrame = emit_frame c flags kind corr payload, evPayload = payload\<rparr>"
    and "length (emit_item c flags kind corr payload m) = unat (cSlotSize c)"
proof -
  let ?f = "emit_frame c flags kind corr payload" and ?s = "unat (cSlotSize c)"
  note ok = client_okD [OF assms(1)]
  have small: "HdrLen + length payload \<le> ?s"
    using assms(3) ok(7) by (cases "payload = []") (auto simp: emit_error_def split: if_splits)
  have bound: "?s < 2 ^ LENGTH(32)" by (rule unsigned_less)
  then have len32: "length payload < 2 ^ 32" using small by simp
  have "length (slot_bytes (qpOutbound (cQp c)) (bmQp m) i) = ?s" for i
    using slot_bounds(2) [OF ring_ok_geometry [OF ok(3)]] by (simp add: slot_bytes_def ok(6))
  then show "length (emit_item c flags kind corr payload m) = ?s"
    using small by (simp add: emit_item_def Let_def)
  have "length payload \<le> 2 ^ 20"
    using assms(3) by (auto simp: emit_error_def split: if_splits)
  then have valid: "Validate ?f = OK" using emit_frame_valid [OF assms(2) len32] by simp
  then obtain rest where item: "emit_item c flags kind corr payload m = frame_header ?f @ payload @ rest"
    by (auto simp: emit_item_def Let_def)
  have dec: "decode_frame (emit_item c flags kind corr payload m) = Some ?f"
    unfolding item using frame_codec.decode_iff valid by blast
  show "slot_event (cSlotSize c) (emit_item c flags kind corr payload m)
       = Some \<lparr>evFrame = ?f, evPayload = payload\<rparr>"
  proof (cases "payload = []")
    case True
    then have "fPayloadLen ?f = 0" by (simp add: emit_frame_def zero_frame_def)
    then show ?thesis using dec unfolding True by (simp add: slot_event_def)
  next
    case False
    have n: "unat (of_nat (length payload) :: u32) = length payload"
      using len32 by (simp add: unat_of_nat)
    then have pos: "0 < (of_nat (length payload) :: u32)"
      using False by (simp add: word_less_nat_alt)
    have "unat (64 + ucast (of_nat (length payload) :: u32) :: u64) = 64 + length payload"
      using n len32 by (simp add: unat_word_ariths)
    then have fit: "64 + ucast (of_nat (length payload) :: u32) \<le> (ucast (cSlotSize c) :: u64)"
      using small by (simp add: word_le_nat_alt go_const)
    have f: "fPayloadLen ?f = of_nat (length payload)" "fPayloadRef ?f = 64"
      "fHdrFlags ?f AND FInline \<noteq> 0"
      using False by (simp_all add: emit_frame_def Let_def go_const bit_simps and.commute
          bit.conj_disj_distrib)
    show ?thesis
      using fit pos by (simp add: slot_event_def dec f n) (simp add: item slice_at_def go_const)
  qed
qed

lemma emit_ok:
  assumes "client_ok c m" and "sendable flags corr payload" and "emit_error c payload m = None"
  shows "\<exists>m' item. emit c flags kind corr payload m = (None, m') \<and> client_ok c m'
     \<and> outbound c m' = outbound c m @ [item] \<and> inbound c m' = inbound c m \<and> bmCtl m' = bmCtl m
     \<and> slot_event (cSlotSize c) item = Some \<lparr>evFrame = emit_frame c flags kind corr payload, evPayload = payload\<rparr>"
proof -
  let ?item = "emit_item c flags kind corr payload m"
  let ?m' = "m\<lparr>bmQp := the (ring_produce (qpOutbound (cQp c)) (bmQp m) ?item)\<rparr>"
  note ok = client_okD [OF assms(1)]
  note item = slot_event_emit_item [OF assms, of kind]
  have room: "length (ring_list (qpOutbound (cQp c)) (bmQp m)) < unat (rCapacity (qpOutbound (cQp c)))"
    using assms(3) ring_queue.length_items [OF ok(3)]
    by (auto simp: emit_error_def outbound_def split: if_splits)
  have "length ?item = unat (rSlotSize (qpOutbound (cQp c)))" using item(2) by (simp only: ok(6))
  note prod = qp_produce [OF ok(2) this room]
  have "emit c flags kind corr payload m = (None, ?m')"
    using emit_exact [OF assms(1,2)] assms(3) by simp
  moreover have "client_ok c ?m'" using assms(1) prod(1) by (simp add: client_ok_def)
  moreover have "outbound c ?m' = outbound c m @ [?item]" and "inbound c ?m' = inbound c m"
    using prod(2,3) by (simp_all add: outbound_def inbound_def)
  ultimately show ?thesis using item(1) by (intro exI [of _ ?m'] exI [of _ ?item]) simp
qed

lemma emit_refused:
  assumes "client_ok c m" and "sendable flags corr payload" and "emit_error c payload m = Some e"
  shows "emit c flags kind corr payload m = (Some e, m)"
  using emit_exact [OF assms(1,2)] assms(3) by simp

section \<open>Receiving takes one event\<close>

text \<open>
  The slots not yet given out: the one given out by the last \<open>Poll\<close> is still in the ring, and is
  released by the next one.
\<close>

definition unread :: "Client \<Rightarrow> bus_mem \<Rightarrow> byte list list" where
  "unread c m = (if cPendingRead c then tl (inbound c m) else inbound c m)"

definition client_inv :: "Client \<Rightarrow> bus_mem \<Rightarrow> bool" where
  "client_inv c m \<longleftrightarrow> client_ok c m \<and> (cPendingRead c \<longrightarrow> inbound c m \<noteq> [])"

text \<open>A payload reference that wraps around \<open>2^64\<close> and so passes the test against the slot size.\<close>

definition slot_wraps :: "u32 \<Rightarrow> byte list \<Rightarrow> bool" where
  "slot_wraps slotSize item \<longleftrightarrow>
    (case decode_frame item of
       None \<Rightarrow> False
     | Some f \<Rightarrow> fHdrFlags f AND FInline \<noteq> 0 \<and> fPayloadLen f > 0
         \<and> fPayloadRef f + ucast (fPayloadLen f) \<le> ucast slotSize
         \<and> fPayloadRef f + ucast (fPayloadLen f) < fPayloadRef f)"

lemma unwrapped_slice:
  fixes ref :: u64 and len slot :: u32
  assumes "ref + ucast len \<le> ucast slot" and "\<not> ref + ucast len < ref"
  shows "unat (ref + ucast len) = unat ref + unat len" and "unat ref + unat len \<le> unat slot"
proof -
  have "unat (ucast len :: u64) = unat len" "unat (ucast slot :: u64) = unat slot" by simp_all
  moreover have "unat (ref + ucast len) = unat ref + unat (ucast len :: u64)"
    using assms(2) unfolding not_less by (rule unat_plus_simple [THEN iffD1])
  ultimately show "unat (ref + ucast len) = unat ref + unat len" "unat ref + unat len \<le> unat slot"
    using assms(1) by (simp_all add: word_le_nat_alt)
qed

lemma Poll_after_release:
  assumes "client_ok c m" and "\<not> Client_EpochChanged c m" and "\<not> cPendingRead c"
  shows "Poll c m =
    (case inbound c m of
       [] \<Rightarrow> (PollNone, c, m)
     | item # rest \<Rightarrow>
        (case slot_event (cSlotSize c) item of
           None \<Rightarrow> (PollNone, c, m\<lparr>bmQp := ConsumeCommit (qpInbound (cQp c)) (bmQp m)\<rparr>)
         | Some ev \<Rightarrow> if slot_wraps (cSlotSize c) item then (PollPanic, c, m)
             else (PollEvent ev, c\<lparr>cPendingRead := True\<rparr>, m)))"
proof -
  let ?r = "qpInbound (cQp c)" and ?s = "unat (cSlotSize c)"
  let ?off = "Ring_slot ?r (Ring_tail ?r (bmQp m))"
  note ok = client_okD [OF assms(1)]
  show ?thesis
  proof (cases "ring_length ?r (bmQp m) = 0")
    case True
    then have "inbound c m = []" by (simp add: inbound_def ring_list_def)
    with True show ?thesis by (simp add: Poll_def ok(1) assms(2,3) ConsumeBegin_iff)
  next
    case False
    define item where "item = slot_bytes ?r (bmQp m) (Ring_tail ?r (bmQp m))"
    have slot: "slice_at ?off ?s (bmQp m) = item" by (simp add: item_def slot_bytes_def ok(5))
    have fits: "?off + ?s \<le> length (bmQp m)"
      using slot_bounds(2) [OF ring_ok_geometry [OF ok(4)]] by (simp add: ok(5))
    obtain rest where inb: "inbound c m = item # rest"
      using ring_list_hd [of ?r "bmQp m"] False by (cases "inbound c m") (auto simp: inbound_def item_def)
    have begin_: "ConsumeBegin ?r (bmQp m) = Some ?off" using False by (simp add: ConsumeBegin_iff)
    obtain res f where dec: "Decode item zero_frame = (res, f)" by fastforce
    show ?thesis
    proof (cases "res = OK")
      case False
      then show ?thesis
        using dec by (simp add: Poll_def ok(1,5) assms(2,3) begin_ slot inb slot_event_def decode_frame_def)
    next
      case True
      then have decf: "decode_frame item = Some f" using dec by (simp add: decode_frame_def)
      have window: "fPayloadRef f \<le> fPayloadRef f + ucast (fPayloadLen f)
            \<and> unat (fPayloadRef f + ucast (fPayloadLen f)) \<le> length (bmQp m) - ?off
          \<and> slice_at (?off + unat (fPayloadRef f))
              (unat (fPayloadRef f + ucast (fPayloadLen f)) - unat (fPayloadRef f)) (bmQp m)
            = slice_at (unat (fPayloadRef f)) (unat (fPayloadLen f)) item"
        if "fPayloadRef f + ucast (fPayloadLen f) \<le> ucast (cSlotSize c)"
          "\<not> fPayloadRef f + ucast (fPayloadLen f) < fPayloadRef f"
        using unwrapped_slice [OF that] that(2) fits
        by (simp add: not_less slice_slice_at flip: slot)
      show ?thesis
        using dec True window
        by (auto simp: Poll_def ok(1,5) assms(2,3) begin_ slot inb slot_event_def slot_wraps_def decf
            Let_def not_le not_less)
    qed
  qed
qed

lemma Poll_release:
  assumes "cPendingRead c" and "cControl c" and "\<not> Client_EpochChanged c m"
  shows "Poll c m = Poll (c\<lparr>cPendingRead := False\<rparr>)
     (m\<lparr>bmQp := ConsumeCommit (qpInbound (cQp c)) (bmQp m)\<rparr>)"
  using assms by (simp add: Poll_def Client_EpochChanged_def)

lemma client_consume:
  assumes "client_ok c m" and "inbound c m \<noteq> []"
  defines "m' \<equiv> m\<lparr>bmQp := ConsumeCommit (qpInbound (cQp c)) (bmQp m)\<rparr>"
  shows "client_ok c m'" and "inbound c m' = tl (inbound c m)" and "outbound c m' = outbound c m"
    and "bmCtl m' = bmCtl m"
  using assms(1) qp_consume [of "cQp c" "bmQp m"] assms(2)
  by (simp_all add: m'_def client_ok_def inbound_def outbound_def)

lemma client_ok_pending [simp]:
  "client_ok (c\<lparr>cPendingRead := b\<rparr>) m = client_ok c m"
  "inbound (c\<lparr>cPendingRead := b\<rparr>) m = inbound c m"
  "outbound (c\<lparr>cPendingRead := b\<rparr>) m = outbound c m"
  "Client_EpochChanged (c\<lparr>cPendingRead := b\<rparr>) m = Client_EpochChanged c m"
  by (simp_all add: client_ok_def inbound_def outbound_def Client_EpochChanged_def)

text \<open>The state in which \<open>Poll\<close> looks at the ring: the slot given out before is released.\<close>

lemma released:
  assumes "client_inv c m" and "\<not> Client_EpochChanged c m"
  shows "\<exists>m1. Poll c m = Poll (c\<lparr>cPendingRead := False\<rparr>) m1 \<and> client_ok c m1
     \<and> inbound c m1 = unread c m \<and> outbound c m1 = outbound c m \<and> bmCtl m1 = bmCtl m
     \<and> \<not> Client_EpochChanged c m1"
proof (cases "cPendingRead c")
  case True
  let ?m1 = "m\<lparr>bmQp := ConsumeCommit (qpInbound (cQp c)) (bmQp m)\<rparr>"
  have ok: "client_ok c m" "inbound c m \<noteq> []" using assms(1) True by (simp_all add: client_inv_def)
  note rel = client_consume [OF ok]
  have "Poll c m = Poll (c\<lparr>cPendingRead := False\<rparr>) ?m1"
    using Poll_release [OF True _ assms(2)] client_okD(1) [OF ok(1)] by simp
  moreover have "\<not> Client_EpochChanged c ?m1" using assms(2) by (simp add: Client_EpochChanged_def)
  ultimately show ?thesis using rel True by (intro exI [of _ ?m1]) (simp add: unread_def)
next
  case False
  then have same: "c\<lparr>cPendingRead := False\<rparr> = c" by simp
  show ?thesis
    unfolding same using assms False by (intro exI [of _ m]) (simp add: client_inv_def unread_def)
qed

lemma Poll_cases:
  assumes "client_inv c m" and "\<not> Client_EpochChanged c m" and "Poll c m = (res, c', m')"
  shows "client_inv c' m' \<and> outbound c' m' = outbound c m \<and> bmCtl m' = bmCtl m
     \<and> c' = c\<lparr>cPendingRead := cPendingRead c'\<rparr>
     \<and> (case unread c m of
          [] \<Rightarrow> res = PollNone \<and> unread c' m' = []
        | item # rest \<Rightarrow>
           (case slot_event (cSlotSize c) item of
              None \<Rightarrow> res = PollNone \<and> unread c' m' = rest
            | Some ev \<Rightarrow>
                if slot_wraps (cSlotSize c) item then res = PollPanic
                else res = PollEvent ev \<and> unread c' m' = rest))"
proof -
  obtain m1 where m1: "Poll c m = Poll (c\<lparr>cPendingRead := False\<rparr>) m1" "client_ok c m1"
    "inbound c m1 = unread c m" "outbound c m1 = outbound c m" "bmCtl m1 = bmCtl m"
    "\<not> Client_EpochChanged c m1"
    using released [OF assms(1,2)] by blast
  have run: "Poll (c\<lparr>cPendingRead := False\<rparr>) m1 = (res, c', m')" using m1(1) assms(3) by simp
  show ?thesis
  proof (cases "unread c m")
    case Nil
    then show ?thesis
      using run m1 Poll_after_release [of "c\<lparr>cPendingRead := False\<rparr>" m1]
      by (auto simp: client_inv_def unread_def)
  next
    case (Cons item rest)
    then show ?thesis
      using run m1 Poll_after_release [of "c\<lparr>cPendingRead := False\<rparr>" m1] client_consume [OF m1(2)]
      by (auto simp: client_inv_def unread_def split: option.splits if_splits)
  qed
qed

section \<open>Properties\<close>

text \<open>C16: Sending. With a client as the host lays it out, every kind of message is either refused with
  the error of the first test that fails and the shared memory is untouched, or the outbound queue
  grows by exactly one slot, from which a receiver reads the frame of the message and its payload;
  the inbound queue does not change. The tests are those of unbounded arithmetic: the truncation of
  the payload length to 32 bits lets nothing through.\<close>

theorem emit_spec:
  assumes "client_ok c m" and "sendable flags corr payload"
  shows "(case emit_error c payload m of
       Some e \<Rightarrow> emit c flags kind corr payload m = (Some e, m)
     | None \<Rightarrow> \<exists>m' item. emit c flags kind corr payload m = (None, m') \<and> client_ok c m'
         \<and> outbound c m' = outbound c m @ [item] \<and> inbound c m' = inbound c m \<and> bmCtl m' = bmCtl m
         \<and> slot_event (cSlotSize c) item
            = Some \<lparr>evFrame = emit_frame c flags kind corr payload, evPayload = payload\<rparr>)"
  using emit_ok [OF assms] emit_refused [OF assms] by (auto split: option.split)

text \<open>A zeroed queue pair of two rings of eight 256-byte slots, attached by a client.\<close>

definition sample_client :: Client where
  "sample_client = \<lparr>cHandle = 7, cStatus = AttachOK, cSlotSize = 256, cInlineBudget = 192,
     cQueueCapacity = 8, cArenaSize = 4096, cAttachedEpoch = 0, cControl = True,
     cQp = laid_out_pair 256 8, cCtlMem = True, cArena = True, cQpMem = True, cPendingRead = False\<rparr>"

definition sample_bus :: bus_mem where
  "sample_bus = \<lparr>bmCtl = replicate 96 0, bmQp = replicate 5000 0\<rparr>"

lemma sample_pair: "qp_ok (laid_out_pair 256 8) (replicate 5000 0)"
  "ring_list (qpInbound (laid_out_pair 256 8)) (replicate 5000 0) = []"
  "ring_list (qpOutbound (laid_out_pair 256 8)) (replicate 5000 0) = []"
proof -
  have eight: "\<exists>k. 1 \<le> k \<and> k < 32 \<and> (8 :: u32) = 2 ^ k" by (rule exI [of _ 3]) simp
  have size: "unat (qpairBytes 256 8) \<le> 5000"
    by (simp add: qpairBytes_exact laid_out_pair_def Let_def laid_out_ring_def ring_end_def
        ring_extent_def go_const)
  show "qp_ok (laid_out_pair 256 8) (replicate 5000 0)"
    "ring_list (qpInbound (laid_out_pair 256 8)) (replicate 5000 0) = []"
    "ring_list (qpOutbound (laid_out_pair 256 8)) (replicate 5000 0) = []"
    by (rule qp_ok_zero [OF _ eight _ size]; simp)+
qed

lemma sample_client_ok: "client_ok sample_client sample_bus" "outbound sample_client sample_bus = []"
  "inbound sample_client sample_bus = []"
  using sample_pair
  by (simp_all add: client_ok_def outbound_def inbound_def sample_client_def sample_bus_def go_const)
    (simp_all add: laid_out_pair_def Let_def laid_out_ring_def)

lemma sample_epoch: "\<not> Client_EpochChanged sample_client sample_bus"
  by (simp add: Client_EpochChanged_def sample_client_def sample_bus_def Control_Epoch_def
      load64_zero ctlOffEpoch_def)

lemma sample_emit_error:
  "length payload \<le> 192 \<Longrightarrow> emit_error sample_client payload sample_bus = None"
  using sample_epoch
  by (simp add: emit_error_def sample_client_ok) (simp add: sample_client_def Client_EpochChanged_def
      laid_out_pair_def Let_def laid_out_ring_def go_const)

lemma emit_spec_witness:
  "\<exists>m' item. emit sample_client FRequest 6401 9 [1, 2, 3] sample_bus = (None, m')
     \<and> client_ok sample_client m'
     \<and> outbound sample_client m' = outbound sample_client sample_bus @ [item]
     \<and> inbound sample_client m' = inbound sample_client sample_bus \<and> bmCtl m' = bmCtl sample_bus
     \<and> slot_event (cSlotSize sample_client) item
        = Some \<lparr>evFrame = emit_frame sample_client FRequest 6401 9 [1, 2, 3], evPayload = [1, 2, 3]\<rparr>"
  using emit_spec [OF sample_client_ok(1), of FRequest 9 "[1, 2, 3]" 6401] sample_emit_error [of "[1, 2, 3]"]
  by (simp add: sendable_def)

text \<open>C17: Receiving. A poll releases the slot given out before and takes the next one: it reports
  nothing when there is none, drops a slot that does not hold a valid frame, and otherwise gives out
  the frame with its payload; the outbound queue and the control region do not change, and the
  invariant of the client is kept. It panics exactly on a slot whose payload reference wraps around.\<close>

theorem poll_spec:
  assumes "client_inv c m" and "\<not> Client_EpochChanged c m" and "Poll c m = (res, c', m')"
  shows "client_inv c' m' \<and> outbound c' m' = outbound c m \<and> bmCtl m' = bmCtl m
     \<and> (case unread c m of
          [] \<Rightarrow> res = PollNone \<and> unread c' m' = []
        | item # rest \<Rightarrow>
           (case slot_event (cSlotSize c) item of
              None \<Rightarrow> res = PollNone \<and> unread c' m' = rest
            | Some ev \<Rightarrow>
                if slot_wraps (cSlotSize c) item then res = PollPanic
                else res = PollEvent ev \<and> unread c' m' = rest))"
  using Poll_cases [OF assms] by simp

lemma poll_spec_witness: "fst (Poll sample_client sample_bus) = PollNone"
proof -
  obtain res c' m' where run: "Poll sample_client sample_bus = (res, c', m')" by (metis prod_cases3)
  have "client_inv sample_client sample_bus"
    using sample_client_ok by (simp add: client_inv_def sample_client_def)
  moreover have "unread sample_client sample_bus = []"
    using sample_client_ok by (simp add: unread_def)
  ultimately show ?thesis using poll_spec [OF _ sample_epoch run] run by simp
qed

text \<open>The same queue pair seen from the other side: what one client sends the other receives.\<close>

definition loop_client :: "Client \<Rightarrow> Client" where
  "loop_client c = c\<lparr>cQp := \<lparr>qpInbound = qpOutbound (cQp c), qpOutbound = qpInbound (cQp c)\<rparr>\<rparr>"

lemma loop_client_ok:
  assumes "client_ok c m"
  shows "client_ok (loop_client c) m" and "inbound (loop_client c) m = outbound c m"
    and "Client_EpochChanged (loop_client c) m = Client_EpochChanged c m"
    and "cPendingRead (loop_client c) = cPendingRead c"
    and "cSlotSize (loop_client c) = cSlotSize c"
  using assms by (auto simp: loop_client_def client_ok_def qp_ok_def inbound_def outbound_def
      Client_EpochChanged_def)

lemma emit_frame_no_wrap:
  assumes "slot_event s item = Some \<lparr>evFrame = emit_frame c flags kind corr payload, evPayload = payload\<rparr>"
  shows "\<not> slot_wraps s item"
proof -
  have dec: "decode_frame item = Some (emit_frame c flags kind corr payload)"
    using assms by (auto simp: slot_event_def split: option.splits)
  let ?n = "of_nat (length payload) :: u32"
  have "unat (ucast ?n :: u64) < 2 ^ 32"
  proof -
    have "unat ?n < 2 ^ LENGTH(32)" by (rule unsigned_less)
    then show ?thesis by simp
  qed
  then have "unat (64 + ucast ?n :: u64) = 64 + unat (ucast ?n :: u64)"
    by (simp only: unat_plus_if') simp
  then have "\<not> 64 + ucast ?n < (64 :: u64)" by (simp add: word_less_nat_alt)
  then show ?thesis
    by (cases "payload = []")
      (auto simp: slot_wraps_def dec emit_frame_def zero_frame_def Let_def go_const)
qed

text \<open>From sender to receiver. When the slot that a client has just filled is the next unread slot
  of a second client with the same geometry, the second client's poll gives out the very frame and
  payload that were sent.\<close>

theorem emit_poll_roundtrip:
  assumes "client_ok a ma" and "sendable flags corr payload"
    and "emit a flags kind corr payload ma = (None, ma')"
    and "client_inv b mb" and "\<not> Client_EpochChanged b mb" and "cSlotSize b = cSlotSize a"
    and "unread b mb = last (outbound a ma') # rest"
  shows "fst (Poll b mb) = PollEvent \<lparr>evFrame = emit_frame a flags kind corr payload, evPayload = payload\<rparr>"
proof -
  have "emit_error a payload ma = None"
    using emit_refused [OF assms(1,2)] assms(3) by (cases "emit_error a payload ma") auto
  then obtain item where item: "outbound a ma' = outbound a ma @ [item]"
    "slot_event (cSlotSize a) item
      = Some \<lparr>evFrame = emit_frame a flags kind corr payload, evPayload = payload\<rparr>"
    using emit_ok [OF assms(1,2)] assms(3) by force
  obtain res c' m' where run: "Poll b mb = (res, c', m')" by (metis prod_cases3)
  show ?thesis
    using Poll_cases [OF assms(4,5) run] item emit_frame_no_wrap [OF item(2)] assms(6,7) run by simp
qed

lemma emit_poll_roundtrip_witness:
  "\<exists>m'. emit sample_client FRequest 6401 9 [1, 2, 3] sample_bus = (None, m')
     \<and> fst (Poll (loop_client sample_client) m')
        = PollEvent \<lparr>evFrame = emit_frame sample_client FRequest 6401 9 [1, 2, 3], evPayload = [1, 2, 3]\<rparr>"
proof -
  have send: "sendable FRequest 9 [1, 2, 3]" by (simp add: sendable_def)
  obtain m' item where m': "emit sample_client FRequest 6401 9 [1, 2, 3] sample_bus = (None, m')"
    "client_ok sample_client m'" "outbound sample_client m' = [item]" "bmCtl m' = bmCtl sample_bus"
    using emit_ok [OF sample_client_ok(1) send sample_emit_error, of 6401] by (auto simp: sample_client_ok)
  note loop = loop_client_ok [OF m'(2)]
  have "client_inv (loop_client sample_client) m'"
    and "unread (loop_client sample_client) m' = [last (outbound sample_client m')]"
    using loop m'(3) by (simp_all add: client_inv_def unread_def sample_client_def)
  moreover have "\<not> Client_EpochChanged (loop_client sample_client) m'"
    using loop(3) sample_epoch m'(4) by (simp add: Client_EpochChanged_def)
  ultimately have "fst (Poll (loop_client sample_client) m')
      = PollEvent \<lparr>evFrame = emit_frame sample_client FRequest 6401 9 [1, 2, 3], evPayload = [1, 2, 3]\<rparr>"
    using emit_poll_roundtrip [OF sample_client_ok(1) send m'(1), of "loop_client sample_client" m'] loop(5)
    by simp
  with m'(1) show ?thesis by blast
qed

text \<open>C33: What \<open>Poll\<close> leaves unchecked. It bounds \<open>PayloadRef + PayloadLen\<close> in wrapping arithmetic
  and never asks \<open>CheckPlacement\<close>, so it panics exactly when the next unread slot holds a valid
  frame whose inline payload reference wraps around to a value within the slot; every such frame
  would have been refused by \<open>CheckPlacement\<close>, and no frame that \<open>CheckPlacement\<close> accepts makes it
  panic.\<close>

theorem poll_panics_iff:
  assumes "client_inv c m" and "\<not> Client_EpochChanged c m"
  shows "(fst (Poll c m) = PollPanic \<longleftrightarrow>
        (\<exists>item rest. unread c m = item # rest \<and> slot_wraps (cSlotSize c) item))
     \<and> (\<forall>item. slot_wraps (cSlotSize c) item \<longrightarrow>
        (\<exists>f. decode_frame item = Some f
          \<and> CheckPlacement f (cSlotSize c) (cArenaSize c) = ErrPayloadLen))"
proof -
  obtain res c' m' where run: "Poll c m = (res, c', m')" by (metis prod_cases3)
  have "res = PollPanic \<longleftrightarrow> (\<exists>item rest. unread c m = item # rest \<and> slot_wraps (cSlotSize c) item)"
    using Poll_cases [OF assms run]
    by (auto simp: slot_wraps_def slot_event_def split: list.splits option.splits if_splits)
  moreover have "\<exists>f. decode_frame item = Some f \<and> CheckPlacement f (cSlotSize c) (cArenaSize c) = ErrPayloadLen"
    if wraps: "slot_wraps (cSlotSize c) item" for item
  proof -
    obtain f where f: "decode_frame item = Some f" "fHdrFlags f AND FInline \<noteq> 0" "fPayloadLen f > 0"
      "fPayloadRef f + ucast (fPayloadLen f) < fPayloadRef f"
      using wraps unfolding slot_wraps_def by (cases "decode_frame item") auto
    have "Validate f = OK" using f(1) by (rule frame_codec.decode_valid)
    with f show ?thesis by (auto simp: CheckPlacement_def Let_def)
  qed
  ultimately show ?thesis using run by simp
qed

text \<open>A frame the decoder accepts and whose payload reference is ten bytes short of \<open>2^64\<close>.\<close>

definition wrap_frame :: Frame where
  "wrap_frame = zero_frame\<lparr>fHdrFlags := FRequest OR FInline, fWireVersion := WireVersion,
     fEventKind := 6401, fCorrelationID := 9, fPayloadRef := - 10, fPayloadLen := 20\<rparr>"

definition wrap_item :: "byte list" where
  "wrap_item = frame_header wrap_frame @ replicate 192 0"

lemma wrap_item_wraps: "slot_wraps 256 wrap_item" "length wrap_item = 256"
proof -
  have "Validate wrap_frame = OK"
    by (simp add: wrap_frame_def zero_frame_def Validate_def exactlyOne_def go_const Let_def)
  then have "decode_frame wrap_item = Some wrap_frame"
    unfolding wrap_item_def using frame_codec.decode_iff by blast
  then show "slot_wraps 256 wrap_item"
    by (simp add: slot_wraps_def wrap_frame_def zero_frame_def go_const)
  show "length wrap_item = 256" by (simp add: wrap_item_def go_const)
qed

lemma poll_panics_iff_witness:
  "\<exists>m. unread (loop_client sample_client) m = [wrap_item] \<and> fst (Poll (loop_client sample_client) m) = PollPanic"
proof -
  let ?q = "cQp sample_client"
  let ?m = "sample_bus\<lparr>bmQp := the (ring_produce (qpOutbound ?q) (bmQp sample_bus) wrap_item)\<rparr>"
  have slot: "unat (rSlotSize (qpOutbound ?q)) = 256" "unat (rCapacity (qpOutbound ?q)) = 8"
    by (simp_all add: sample_client_def laid_out_pair_def Let_def laid_out_ring_def)
  have none: "ring_list (qpOutbound ?q) (bmQp sample_bus) = []"
    using sample_client_ok(2) by (simp add: outbound_def)
  have room: "length (ring_list (qpOutbound ?q) (bmQp sample_bus)) < unat (rCapacity (qpOutbound ?q))"
    unfolding none slot by simp
  have "length wrap_item = unat (rSlotSize (qpOutbound ?q))" by (simp only: wrap_item_wraps(2) slot)
  note prod = qp_produce [OF client_okD(2) [OF sample_client_ok(1)] this room]
  have ok: "client_ok sample_client ?m" "outbound sample_client ?m = [wrap_item]"
    using prod(1,2) sample_client_ok(1) none by (simp_all add: client_ok_def outbound_def)
  note loop = loop_client_ok [OF ok(1)]
  have "client_inv (loop_client sample_client) ?m" and unread: "unread (loop_client sample_client) ?m = [wrap_item]"
    using loop ok(2) by (simp_all add: client_inv_def unread_def sample_client_def)
  moreover have "\<not> Client_EpochChanged (loop_client sample_client) ?m"
    using loop(3) sample_epoch by (simp add: Client_EpochChanged_def)
  moreover have "cSlotSize (loop_client sample_client) = 256"
    using loop(5) by (simp add: sample_client_def)
  ultimately have "fst (Poll (loop_client sample_client) ?m) = PollPanic"
    using poll_panics_iff [of "loop_client sample_client" ?m] wrap_item_wraps(1) by simp
  with unread show ?thesis by blast
qed

end
