(* ===== verification/Attach.thy ===== *)
theory Attach
  imports Client "HOL-Library.Multiset"
begin

text \<open>
  Attaching: the handshake and the mapping of the regions (\<open>AttachAs\<close>, \<open>parseRights\<close>, \<open>Detach\<close> in
  \<open>server-go/bus/client.go\<close>) and the connection loops around it (\<open>ConnectClient\<close> and \<open>keepAlive\<close> in
  \<open>server-go/bus/client_connect.go\<close>, \<open>connectModule\<close> in \<open>server-go/bus/module_runtime.go\<close>). The
  system calls and the parsers of \<open>golang.org/x/sys/unix\<close> are parameters; what the code does with
  descriptors and mappings is recorded in a log, in the order it happens.
\<close>

section \<open>The operating system\<close>

type_synonym fd = nat

datatype region = CtlRegion | ArenaRegion | QpRegion

datatype os_event =
    Sent "byte list"
  | Opened fd
  | Closed fd
  | Mapped region fd u64 bool
  | Unmapped region

text \<open>A socket control message as the library parses it: level, type and data.\<close>

record cmsg =
  cmLevel :: int
  cmType :: int
  cmData :: "byte list"

text \<open>
  \<open>Recvmsg\<close> fills the two buffers and installs descriptors in the process; the code only learns of
  them by parsing the control buffer. The last component of \<open>osRecv\<close> is what was installed.
\<close>

record attach_os =
  osSend :: "byte list \<Rightarrow> error option"
  osRecv :: "error + (nat \<times> byte list \<times> byte list \<times> fd list)"
  osParse :: "byte list \<Rightarrow> error + cmsg list"
  osRights :: "cmsg \<Rightarrow> error + fd list"
  osMmap :: "region \<Rightarrow> fd \<Rightarrow> u64 \<Rightarrow> error + byte list"

definition SOL_SOCKET :: int where [go_const]: "SOL_SOCKET = 1"
definition SCM_RIGHTS :: int where [go_const]: "SCM_RIGHTS = 1"

section \<open>The handshake\<close>

definition attachReqMagic :: u32 where [go_const]: "attachReqMagic = 0x51524241"
definition attachReplyMagic :: u32 where [go_const]: "attachReplyMagic = 0x50524241"
definition attachReqBytes :: nat where [go_const]: "attachReqBytes = 16"
definition attachReplyBytes :: nat where [go_const]: "attachReplyBytes = 48"

definition attach_request :: "u32 \<Rightarrow> u32 \<Rightarrow> byte list" where
  "attach_request principalClass principalRef =
    (let req = replicate attachReqBytes 0;
         req = PutUint32 0 attachReqMagic req;
         req = PutUint16 4 WireVersion req;
         req = PutUint16 6 WireVersion req;
         req = PutUint32 8 principalClass req;
         req = PutUint32 12 principalRef req
     in req)"

definition parseRights :: "attach_os \<Rightarrow> byte list \<Rightarrow> fd list" where
  "parseRights os oob =
    (if length oob = 0 then []
     else case osParse os oob of
       Inl _ \<Rightarrow> []
     | Inr msgs \<Rightarrow> concat (map (\<lambda>m.
         if cmLevel m = SOL_SOCKET \<and> cmType m = SCM_RIGHTS
         then (case osRights os m of Inl _ \<Rightarrow> [] | Inr f \<Rightarrow> f) else []) msgs))"

text \<open>The client a refused attach returns holds the status and nothing else.\<close>

definition no_client :: Client where
  "no_client = \<lparr>cHandle = 0, cStatus = 0, cSlotSize = 0, cInlineBudget = 0, cQueueCapacity = 0,
     cArenaSize = 0, cAttachedEpoch = 0, cControl = False,
     cQp = \<lparr>qpInbound = \<lparr>rBase = 0, rSlotSize = 0, rCapacity = 0, rMask = 0, rSlotsOff = 0\<rparr>,
            qpOutbound = \<lparr>rBase = 0, rSlotSize = 0, rCapacity = 0, rMask = 0, rSlotsOff = 0\<rparr>\<rparr>,
     cCtlMem = False, cArena = False, cQpMem = False, cPendingRead = False\<rparr>"

definition Detach :: "Client \<Rightarrow> Client \<times> os_event list" where
  "Detach c =
    (c\<lparr>cCtlMem := False, cArena := False, cQpMem := False\<rparr>,
     (if cCtlMem c then [Unmapped CtlRegion] else []) @ (if cArena c then [Unmapped ArenaRegion] else [])
     @ (if cQpMem c then [Unmapped QpRegion] else []))"

type_synonym attached = "(Client \<times> bus_mem) option \<times> error option \<times> os_event list"

text \<open>The client described by the reply, before its regions are mapped.\<close>

definition reply_client :: "byte list \<Rightarrow> Client" where
  "reply_client replyBuf = no_client\<lparr>
     cStatus := Uint32 (drop 4 replyBuf), cHandle := Uint32 (drop 8 replyBuf),
     cSlotSize := Uint32 (drop 16 replyBuf), cInlineBudget := Uint32 (drop 20 replyBuf),
     cQueueCapacity := Uint32 (drop 24 replyBuf), cArenaSize := Uint64 (drop 32 replyBuf),
     cAttachedEpoch := Uint64 (drop 40 replyBuf)\<rparr>"

text \<open>The mapping of the three regions; \<open>log\<close> is what happened before.\<close>

definition attach_map :: "attach_os \<Rightarrow> Client \<Rightarrow> fd list \<Rightarrow> os_event list \<Rightarrow> attached" where
  "attach_map os c fds log =
    (let closeAll = map Closed fds in
     case osMmap os CtlRegion (fds ! 0) (of_nat ctlBytes) of
       Inl e \<Rightarrow> (None, Some e, log @ closeAll)
     | Inr ctlMem \<Rightarrow>
        let log = log @ [Mapped CtlRegion (fds ! 0) (of_nat ctlBytes) False];
            arenaBytes = 16 + cArenaSize c
        in case osMmap os ArenaRegion (fds ! 1) arenaBytes of
             Inl e \<Rightarrow> (None, Some e, log @ [Unmapped CtlRegion] @ closeAll)
           | Inr arena \<Rightarrow>
              let log = log @ [Mapped ArenaRegion (fds ! 1) arenaBytes True];
                  qpBytesLen = qpairBytes (cSlotSize c) (cQueueCapacity c)
              in case osMmap os QpRegion (fds ! 2) qpBytesLen of
                   Inl e \<Rightarrow> (None, Some e, log @ [Unmapped CtlRegion, Unmapped ArenaRegion] @ closeAll)
                 | Inr qpMem \<Rightarrow>
                    let log = log @ [Mapped QpRegion (fds ! 2) qpBytesLen True] @ closeAll;
                        c = c\<lparr>cCtlMem := True, cArena := True, cQpMem := True\<rparr>
                    in case AttachControl ctlMem of
                         Inl e \<Rightarrow> (None, Some e, log @ snd (Detach c))
                       | Inr _ \<Rightarrow>
                          (case AttachQueuePair qpMem of
                             Inl e \<Rightarrow> (None, Some e, log @ snd (Detach c))
                           | Inr qp \<Rightarrow> (Some (c\<lparr>cControl := True, cQp := qp\<rparr>,
                                \<lparr>bmCtl = ctlMem, bmQp = qpMem\<rparr>), None, log)))"

definition AttachAs :: "attach_os \<Rightarrow> u32 \<Rightarrow> u32 \<Rightarrow> attached" where
  "AttachAs os principalClass principalRef =
    (let req = attach_request principalClass principalRef; log = [Sent req] in
     case osSend os req of
       Some e \<Rightarrow> (None, Some e, log)
     | None \<Rightarrow>
        (case osRecv os of
           Inl e \<Rightarrow> (None, Some e, log)
         | Inr (n, replyBuf, oob, received) \<Rightarrow>
            let log = log @ map Opened received; fds = parseRights os oob; closeAll = map Closed fds
            in if n \<noteq> attachReplyBytes \<or> Uint32 (drop 0 replyBuf) \<noteq> attachReplyMagic
               then (None, Some ErrProtocol, log @ closeAll)
               else
                let status = Uint32 (drop 4 replyBuf)
                in if status \<noteq> AttachOK
                   then (Some (no_client\<lparr>cStatus := status\<rparr>, \<lparr>bmCtl = [], bmQp = []\<rparr>), Some ErrDenied,
                         log @ closeAll)
                   else if length fds \<noteq> 3 then (None, Some ErrProtocol, log @ closeAll)
                   else attach_map os (reply_client replyBuf) fds log))"

definition Client_Attach :: "attach_os \<Rightarrow> attached" where
  "Client_Attach os = AttachAs os 0 0"

section \<open>Descriptors and mappings over a log\<close>

fun opened :: "os_event list \<Rightarrow> fd multiset" where
  "opened [] = {#}"
| "opened (Opened f # log) = add_mset f (opened log)"
| "opened (_ # log) = opened log"

fun closed :: "os_event list \<Rightarrow> fd multiset" where
  "closed [] = {#}"
| "closed (Closed f # log) = add_mset f (closed log)"
| "closed (_ # log) = closed log"

fun mapped :: "os_event list \<Rightarrow> region multiset" where
  "mapped [] = {#}"
| "mapped (Mapped r _ _ _ # log) = add_mset r (mapped log)"
| "mapped (_ # log) = mapped log"

fun unmapped :: "os_event list \<Rightarrow> region multiset" where
  "unmapped [] = {#}"
| "unmapped (Unmapped r # log) = add_mset r (unmapped log)"
| "unmapped (_ # log) = unmapped log"

named_theorems ledger_simps

lemma ledger_append [ledger_simps]:
  "opened (l @ l') = opened l + opened l'" "closed (l @ l') = closed l + closed l'"
  "mapped (l @ l') = mapped l + mapped l'" "unmapped (l @ l') = unmapped l + unmapped l'"
proof -
  show "opened (l @ l') = opened l + opened l'" by (induction l rule: opened.induct) simp_all
  show "closed (l @ l') = closed l + closed l'" by (induction l rule: closed.induct) simp_all
  show "mapped (l @ l') = mapped l + mapped l'" by (induction l rule: mapped.induct) simp_all
  show "unmapped (l @ l') = unmapped l + unmapped l'" by (induction l rule: unmapped.induct) simp_all
qed

lemma ledger_fds [ledger_simps]:
  "opened (map Opened fds) = mset fds" "closed (map Opened fds) = {#}"
  "opened (map Closed fds) = {#}" "closed (map Closed fds) = mset fds"
  "mapped (map Opened fds) = {#}" "unmapped (map Opened fds) = {#}"
  "mapped (map Closed fds) = {#}" "unmapped (map Closed fds) = {#}"
  by (induction fds) simp_all

definition held :: "(Client \<times> bus_mem) option \<Rightarrow> region multiset" where
  "held res =
    (case res of
       None \<Rightarrow> {#}
     | Some (c, _) \<Rightarrow> (if cCtlMem c then {#CtlRegion#} else {#}) + (if cArena c then {#ArenaRegion#} else {#})
         + (if cQpMem c then {#QpRegion#} else {#}))"

text \<open>The ledger of each way through the mapping and through the handshake.\<close>

definition balanced :: "attached \<Rightarrow> bool" where
  "balanced a \<longleftrightarrow> (case a of (res, err, log) \<Rightarrow>
     mapped log = unmapped log + held res
     \<and> (err = None \<longleftrightarrow> held res = {#CtlRegion, ArenaRegion, QpRegion#})
     \<and> (err \<noteq> None \<longrightarrow> held res = {#}))"

lemma attach_map_balanced:
  assumes "mapped log = {#}" and "unmapped log = {#}" and "c = reply_client replyBuf"
  shows "balanced (attach_map os c fds log)"
  using assms
  by (auto simp: balanced_def attach_map_def Let_def ledger_simps held_def Detach_def
      reply_client_def no_client_def split: sum.split)

lemma attach_map_fds:
  "opened (snd (snd (attach_map os c fds log))) = opened log"
  "closed (snd (snd (attach_map os c fds log))) = closed log + mset fds"
  by (auto simp: attach_map_def Let_def ledger_simps Detach_def split: sum.split)

lemma attach_balanced: "balanced (AttachAs os principalClass principalRef)"
proof -
  have early: "balanced (None, Some e, [Sent req])" "balanced (None, Some e, Sent req # map Opened rcv @ map Closed fds)"
    "balanced (Some (no_client\<lparr>cStatus := s\<rparr>, m), Some e, Sent req # map Opened rcv @ map Closed fds)"
    for e req fds rcv s m
    by (simp_all add: balanced_def ledger_simps held_def no_client_def)
  have last: "balanced (attach_map os (reply_client buf) fds (Sent req # map Opened rcv))" for buf fds rcv req
    by (rule attach_map_balanced [OF _ _ refl]) (simp_all add: ledger_simps)
  show ?thesis
    by (auto simp: AttachAs_def Let_def early last split: option.split sum.split)
qed

text \<open>
  What \<open>Recvmsg\<close> and the parsers of the library promise: the reply buffer keeps its length, the control
  buffer is a sequence of whole messages, each message of rights parses, and their descriptors,
  message by message, are the ones that were installed; no control data means no descriptor.
\<close>

fun carried :: "attach_os \<Rightarrow> cmsg list \<Rightarrow> fd list option" where
  "carried os [] = Some []"
| "carried os (m # ms) =
    (if cmLevel m \<noteq> SOL_SOCKET \<or> cmType m \<noteq> SCM_RIGHTS then carried os ms
     else case osRights os m of
       Inl _ \<Rightarrow> None
     | Inr f \<Rightarrow> map_option (\<lambda>fds. f @ fds) (carried os ms))"

definition delivers :: "attach_os \<Rightarrow> bool" where
  "delivers os \<longleftrightarrow>
    (case osRecv os of
       Inl _ \<Rightarrow> True
     | Inr (n, replyBuf, oob, received) \<Rightarrow> length replyBuf = attachReplyBytes
         \<and> (if oob = [] then received = []
            else case osParse os oob of Inl _ \<Rightarrow> False | Inr msgs \<Rightarrow> carried os msgs = Some received))"

lemma parseRights_received:
  assumes "delivers os" and "osRecv os = Inr (n, buf, oob, received)"
  shows "parseRights os oob = received"
proof -
  have "concat (map (\<lambda>m. if cmLevel m = SOL_SOCKET \<and> cmType m = SCM_RIGHTS
      then (case osRights os m of Inl _ \<Rightarrow> [] | Inr f \<Rightarrow> f) else []) msgs) = fds"
    if "carried os msgs = Some fds" for msgs fds
    using that by (induction msgs arbitrary: fds) (auto split: if_splits sum.splits)
  then show ?thesis
    using assms by (auto simp: delivers_def parseRights_def split: if_splits sum.splits)
qed

lemma attach_closes:
  assumes "delivers os"
  shows "closed (snd (snd (AttachAs os cl ref))) = opened (snd (snd (AttachAs os cl ref)))
    \<and> opened (snd (snd (AttachAs os cl ref))) =
       (if osSend os (attach_request cl ref) \<noteq> None then {#}
        else case osRecv os of Inl _ \<Rightarrow> {#} | Inr (_, _, _, received) \<Rightarrow> mset received)"
  using parseRights_received [OF assms]
  by (auto simp: AttachAs_def Let_def ledger_simps attach_map_fds split: option.split sum.split)

text \<open>What a successful attach has checked.\<close>

lemma AttachControl_same: "AttachControl mem = Inr ctl \<Longrightarrow> ctl = mem"
  by (auto simp: AttachControl_def Let_def split: if_splits)

definition map_ok :: "attach_os \<Rightarrow> Client \<Rightarrow> fd list \<Rightarrow> byte list \<Rightarrow> byte list \<Rightarrow> QueuePair \<Rightarrow> bool" where
  "map_ok os c fds ctlMem qpMem qp \<longleftrightarrow>
     osMmap os CtlRegion (fds ! 0) (of_nat ctlBytes) = Inr ctlMem
     \<and> (\<exists>arena. osMmap os ArenaRegion (fds ! 1) (16 + cArenaSize c) = Inr arena)
     \<and> osMmap os QpRegion (fds ! 2) (qpairBytes (cSlotSize c) (cQueueCapacity c)) = Inr qpMem
     \<and> AttachControl ctlMem = Inr ctlMem \<and> AttachQueuePair qpMem = Inr qp"

lemma attach_map_success:
  "(\<exists>log'. attach_map os c fds log = (res, None, log')) \<longleftrightarrow>
     (\<exists>ctlMem qpMem qp. map_ok os c fds ctlMem qpMem qp
       \<and> res = Some (c\<lparr>cCtlMem := True, cArena := True, cQpMem := True, cControl := True, cQp := qp\<rparr>,
                     \<lparr>bmCtl = ctlMem, bmQp = qpMem\<rparr>))"
  by (auto simp: attach_map_def Let_def map_ok_def dest: AttachControl_same split: sum.split_asm)

lemma attach_map_result_given:
  "(\<exists>log'. attach_map os c fds log = (res, e, log')) \<Longrightarrow> (e = None) = (res \<noteq> None)"
  by (auto simp: attach_map_def Let_def split: sum.split_asm)

definition reply_ok :: "attach_os \<Rightarrow> u32 \<Rightarrow> u32 \<Rightarrow> byte list \<Rightarrow> fd list \<Rightarrow> bool" where
  "reply_ok os principalClass principalRef buf fds \<longleftrightarrow>
     osSend os (attach_request principalClass principalRef) = None
     \<and> (\<exists>oob received. osRecv os = Inr (attachReplyBytes, buf, oob, received) \<and> fds = parseRights os oob)
     \<and> Uint32 buf = attachReplyMagic \<and> Uint32 (drop 4 buf) = AttachOK \<and> length fds = 3"

lemma attach_success:
  "(\<exists>log. AttachAs os cl ref = (res, None, log)) \<longleftrightarrow>
     (\<exists>buf fds ctlMem qpMem qp. reply_ok os cl ref buf fds
       \<and> map_ok os (reply_client buf) fds ctlMem qpMem qp
       \<and> res = Some ((reply_client buf)\<lparr>cCtlMem := True, cArena := True, cQpMem := True,
                        cControl := True, cQp := qp\<rparr>, \<lparr>bmCtl = ctlMem, bmQp = qpMem\<rparr>))"
    (is "?l \<longleftrightarrow> ?r")
proof
  assume ?l
  then obtain buf oob received log log' where b: "osSend os (attach_request cl ref) = None"
    "osRecv os = Inr (attachReplyBytes, buf, oob, received)" "Uint32 buf = attachReplyMagic"
    "Uint32 (drop 4 buf) = AttachOK" "length (parseRights os oob) = 3"
    "attach_map os (reply_client buf) (parseRights os oob) log' = (res, None, log)"
    by (auto simp: AttachAs_def Let_def split: option.split_asm sum.split_asm if_splits)
  with attach_map_success [of os "reply_client buf" "parseRights os oob" log' res] show ?r
    by (auto simp: reply_ok_def)
next
  assume ?r
  then show ?l
    using attach_map_success by (auto simp: AttachAs_def Let_def reply_ok_def)
qed

section \<open>A host\<close>

text \<open>A queue pair of two rings of two 64-byte slots and a control page, as a host writes them.\<close>

definition host_ring :: "u32 \<Rightarrow> u32 \<Rightarrow> byte list" where
  "host_ring slot cap = le32 ringMagic @ le32 slot @ le32 cap @ le32 (cap - 1) @ le32 (of_nat ringHdrBytes)
     @ replicate (172 + unat slot * unat cap) 0"
definition host_qpair :: "byte list" where
  "host_qpair = le32 qpMagic @ replicate 20 0 @ le32 128 @ le32 448 @ replicate 96 0
     @ host_ring 64 2 @ host_ring 64 2"
definition host_control :: "byte list" where
  "host_control = le32 ctlMagic @ le32 specVersion @ le32 layoutVersion @ replicate 4 0 @ le32 64 @ le32 0
     @ le32 2 @ replicate 4 0 @ le64 4096 @ le64 5 @ replicate 48 0"

lemma Uint64_zeros: "8 \<le> n \<Longrightarrow> Uint64 (replicate n 0 @ r) = 0" "8 \<le> n \<Longrightarrow> Uint64 (replicate n 0) = 0"
  by (simp_all add: Uint64_def nth_append)

lemma laid_out_small: "laid_out_pair 64 2 = \<lparr>qpInbound = laid_out_ring 128 64 2, qpOutbound = laid_out_ring 448 64 2\<rparr>"
  by (simp add: laid_out_pair_def Let_def ring_end_laid_out go_const)

lemma host_qpair_attaches: "AttachQueuePair host_qpair = Inr (laid_out_pair 64 2)"
proof -
  have drops: "drop 128 host_qpair = host_ring 64 2 @ host_ring 64 2" "drop 448 host_qpair = host_ring 64 2"
    by (simp_all add: host_qpair_def host_ring_def)
  have hdr: "ring_header_says (laid_out_ring 128 64 2) host_qpair" "ring_header_says (laid_out_ring 448 64 2) host_qpair"
    unfolding ring_header_says_def laid_out_ring_def host_qpair_def host_ring_def
    by (simp_all add: ringOffMagic_def ringOffSlot_def ringOffCap_def ringOffMask_def ringOffSlots_def)
  have two: "\<exists>k. 1 \<le> k \<and> k < 32 \<and> (2 :: u32) = 2 ^ k" by (rule exI [of _ 1]) simp
  have zero: "Ring_head r host_qpair = 0 \<and> Ring_tail r host_qpair = 0"
    if "r = laid_out_ring 128 64 2 \<or> r = laid_out_ring 448 64 2" for r
    using that by (auto simp: Ring_head_def Ring_tail_def load64_def laid_out_ring_def host_qpair_def
        host_ring_def Uint64_zeros ringOffHead_def ringOffTail_def)
  have ok: "ring_ok r host_qpair" if "r = laid_out_ring 128 64 2 \<or> r = laid_out_ring 448 64 2" for r
    using that zero [OF that] two
    by (auto simp: ring_ok_def ring_geometry_def laid_out_ring_def host_qpair_def host_ring_def go_const)
  have qp: "Uint32 (drop qpOffMagic host_qpair) = qpMagic" "Uint32 (drop qpOffInboundOff host_qpair) = 128"
    "Uint32 (drop qpOffOutboundOff host_qpair) = 448" "qpBytes \<le> length host_qpair"
    by (simp_all add: host_qpair_def host_ring_def qpOffMagic_def qpOffInboundOff_def qpOffOutboundOff_def qpBytes_def)
  have base: "rBase (laid_out_ring b s c) = b" for b s c by (simp add: laid_out_ring_def)
  show ?thesis
    unfolding laid_out_small attach_queue_pair_facts by (simp add: hdr ok qp base)
qed

lemma host_control_attaches: "AttachControl host_control = Inr host_control" "Control_Epoch host_control = 5"
  by (simp_all add: AttachControl_def Let_def host_control_def Control_Epoch_def load64_def go_const)

definition host_reply :: "byte list" where
  "host_reply = le32 attachReplyMagic @ le32 AttachOK @ le32 7 @ replicate 4 0 @ le32 64 @ le32 0
     @ le32 2 @ replicate 4 0 @ le64 4096 @ le64 5"

definition host_os :: attach_os where
  "host_os = \<lparr>osSend = \<lambda>_. None, osRecv = Inr (48, host_reply, [1], [5, 6, 8]),
     osParse = \<lambda>_. Inr [\<lparr>cmLevel = 1, cmType = 1, cmData = []\<rparr>], osRights = \<lambda>_. Inr [5, 6, 8],
     osMmap = \<lambda>r f n. (case r of CtlRegion \<Rightarrow> Inr host_control | ArenaRegion \<Rightarrow> Inr []
                         | QpRegion \<Rightarrow> Inr host_qpair)\<rparr>"

definition host_client :: Client where
  "host_client = (reply_client host_reply)\<lparr>cCtlMem := True, cArena := True, cQpMem := True,
     cControl := True, cQp := laid_out_pair 64 2\<rparr>"

lemma host_accepts: "\<exists>log. AttachAs host_os cl ref
    = (Some (host_client, \<lparr>bmCtl = host_control, bmQp = host_qpair\<rparr>), None, log)"
proof -
  have "reply_ok host_os cl ref host_reply [5, 6, 8]"
    by (simp add: reply_ok_def host_os_def host_reply_def parseRights_def go_const)
  moreover have "map_ok host_os (reply_client host_reply) [5, 6, 8] host_control host_qpair (laid_out_pair 64 2)"
    by (simp add: map_ok_def host_os_def host_control_attaches host_qpair_attaches)
  ultimately show ?thesis
    unfolding attach_success host_client_def by blast
qed

lemma host_delivers: "delivers host_os"
  by (simp add: delivers_def host_os_def host_reply_def go_const)

section \<open>Properties of attaching\<close>

text \<open>C14: No descriptor and no mapping is lost. On every way through the handshake, errors of every
  system call and refusals included, the descriptors that \<open>Recvmsg\<close> installed in the process, however
  many messages carried them, are each closed exactly once (given what the library promises of the
  control buffer), and the regions that are still mapped at the end are those of the returned client:
  all three when the attach succeeds, none otherwise.\<close>

theorem attach_no_leak:
  assumes "AttachAs os principalClass principalRef = (res, err, log)"
  shows "(delivers os \<longrightarrow> closed log = opened log
       \<and> opened log = (if osSend os (attach_request principalClass principalRef) \<noteq> None then {#}
            else case osRecv os of Inl _ \<Rightarrow> {#} | Inr (_, _, _, received) \<Rightarrow> mset received))
     \<and> mapped log = unmapped log + held res
     \<and> (err = None \<longleftrightarrow> held res = {#CtlRegion, ArenaRegion, QpRegion#})
     \<and> (err \<noteq> None \<longrightarrow> held res = {#})"
  using attach_balanced [of os principalClass principalRef] attach_closes [of os principalClass principalRef]
  by (cases err) (auto simp: balanced_def assms)

text \<open>A host that sends its descriptors in two messages, one of them too many.\<close>

definition split_os :: attach_os where
  "split_os = host_os\<lparr>osRecv := Inr (48, host_reply, [1], [5, 6, 8, 9]),
     osParse := \<lambda>_. Inr [\<lparr>cmLevel = 1, cmType = 1, cmData = [0]\<rparr>, \<lparr>cmLevel = 1, cmType = 2, cmData = []\<rparr>,
        \<lparr>cmLevel = 1, cmType = 1, cmData = []\<rparr>],
     osRights := \<lambda>m. if cmData m = [] then Inr [8, 9] else Inr [5, 6]\<rparr>"

lemma attach_no_leak_witness:
  "\<exists>err log. AttachAs split_os 1 9 = (None, err, log) \<and> closed log = {#5, 6, 8, 9#} \<and> mapped log = unmapped log"
proof -
  have length: "length host_reply = 48" by (simp add: host_reply_def)
  have ok: "delivers split_os" by (simp add: delivers_def split_os_def go_const length)
  obtain res err log where run: "AttachAs split_os 1 9 = (res, err, log)" by (metis prod_cases3)
  have "res = None"
    using run by (simp add: AttachAs_def Let_def split_os_def host_os_def parseRights_def host_reply_def go_const)
  moreover have "osSend split_os r = None" "osRecv split_os = Inr (48, host_reply, [1], [5, 6, 8, 9])" for r
    by (simp_all add: split_os_def host_os_def)
  ultimately show ?thesis
    using attach_no_leak [OF run] ok run by (auto simp: held_def)
qed

text \<open>The bytes of a reply, field by field.\<close>

lemma reply_fields:
  assumes "length buf = 48"
  obtains magic status handle pad slot budget cap pad' arena epoch
  where "buf = le32 magic @ le32 status @ le32 handle @ pad @ le32 slot @ le32 budget @ le32 cap @ pad'
      @ le64 arena @ le64 epoch" and "length pad = 4" and "length pad' = 4"
proof -
  have cut: "drop k buf = take n (drop k buf) @ drop (k + n) buf" for k n
    by (metis add.commute append_take_drop_id drop_drop)
  have step32: "\<exists>v. drop k buf = le32 v @ drop (k + 4) buf" if "k + 4 \<le> 48" for k
    using that assms le32_take_read [of "drop k buf"] cut [of k 4]
    by (intro exI [of _ "Uint32 (drop k buf)"]) simp
  have step64: "\<exists>v. drop k buf = le64 v @ drop (k + 8) buf" if "k + 8 \<le> 48" for k
    using that assms le64_take_read [of "drop k buf"] cut [of k 8]
    by (intro exI [of _ "Uint64 (drop k buf)"]) simp
  have pad: "\<exists>p. length p = 4 \<and> drop k buf = p @ drop (k + 4) buf" if "k + 4 \<le> 48" for k
    using that assms cut [of k 4] by (intro exI [of _ "take 4 (drop k buf)"]) simp
  obtain magic status handle p slot budget cap q arena epoch where
    "drop 0 buf = le32 magic @ drop 4 buf" "drop 4 buf = le32 status @ drop 8 buf"
    "drop 8 buf = le32 handle @ drop 12 buf" "length p = 4" "drop 12 buf = p @ drop 16 buf"
    "drop 16 buf = le32 slot @ drop 20 buf" "drop 20 buf = le32 budget @ drop 24 buf"
    "drop 24 buf = le32 cap @ drop 28 buf" "length q = 4" "drop 28 buf = q @ drop 32 buf"
    "drop 32 buf = le64 arena @ drop 40 buf" "drop 40 buf = le64 epoch @ drop 48 buf"
    using step32 [of 0] step32 [of 4] step32 [of 8] pad [of 12] step32 [of 16] step32 [of 20]
      step32 [of 24] pad [of 28] step64 [of 32] step64 [of 40] by auto
  then show thesis
    using assms by (intro that [of magic status handle p slot budget cap q arena epoch]) simp_all
qed

lemma attach_request_bytes:
  "attach_request cl ref = le32 0x51524241 @ le16 3 @ le16 3 @ le32 cl @ le32 ref"
  unfolding attach_request_def Let_def by (simp add: le_simps go_const)

text \<open>C39: Attaching succeeds exactly when the request, its magic, the protocol version twice, the class and
  the reference, is sent, the answer is a reply of 48 bytes with its magic and an accepting status that
  comes with exactly three descriptors, these can be mapped, in the order control page, arena and queue
  pair, with the sizes that the reply's geometry gives, and the two regions with a header pass their
  checks. The client then holds the handle, the slot size, the inline budget, the capacity, the arena
  size and the epoch found at their places in the reply, and the rings of the queue-pair region.\<close>

theorem attach_succeeds_iff:
  assumes "delivers os"
  shows "(\<exists>log. AttachAs os cl ref = (Some (c, m), None, log)) \<longleftrightarrow>
     osSend os (le32 0x51524241 @ le16 3 @ le16 3 @ le32 cl @ le32 ref) = None
     \<and> (\<exists>handle pad slot budget cap pad' arena epoch oob fd0 fd1 fd2 arenaMem.
          length pad = 4 \<and> length pad' = 4
        \<and> osRecv os = Inr (48, le32 0x50524241 @ le32 0 @ le32 handle @ pad @ le32 slot @ le32 budget @ le32 cap
             @ pad' @ le64 arena @ le64 epoch, oob, [fd0, fd1, fd2])
        \<and> osMmap os CtlRegion fd0 (of_nat ctlBytes) = Inr (bmCtl m)
        \<and> osMmap os ArenaRegion fd1 (16 + arena) = Inr arenaMem
        \<and> osMmap os QpRegion fd2 (qpairBytes slot cap) = Inr (bmQp m)
        \<and> AttachControl (bmCtl m) = Inr (bmCtl m) \<and> AttachQueuePair (bmQp m) = Inr (cQp c)
        \<and> c = \<lparr>cHandle = handle, cStatus = 0, cSlotSize = slot, cInlineBudget = budget, cQueueCapacity = cap,
             cArenaSize = arena, cAttachedEpoch = epoch, cControl = True, cQp = cQp c, cCtlMem = True,
             cArena = True, cQpMem = True, cPendingRead = False\<rparr>)"
    (is "?l \<longleftrightarrow> ?send \<and> ?r")
proof
  assume ?l
  then obtain buf fds ctlMem qpMem qp where ok: "reply_ok os cl ref buf fds"
    "map_ok os (reply_client buf) fds ctlMem qpMem qp"
    "c = (reply_client buf)\<lparr>cCtlMem := True, cArena := True, cQpMem := True, cControl := True, cQp := qp\<rparr>"
    "m = \<lparr>bmCtl = ctlMem, bmQp = qpMem\<rparr>"
    unfolding attach_success by auto
  then obtain oob received where recv: "osRecv os = Inr (48, buf, oob, received)" "fds = parseRights os oob"
    by (auto simp: reply_ok_def attachReplyBytes_def)
  then have len: "length buf = 48" and fds: "fds = received"
    using assms parseRights_received [OF assms recv(1)] by (auto simp: delivers_def attachReplyBytes_def)
  obtain magic status handle pad slot budget cap pad' arena epoch where
    buf: "buf = le32 magic @ le32 status @ le32 handle @ pad @ le32 slot @ le32 budget @ le32 cap @ pad'
      @ le64 arena @ le64 epoch" "length pad = 4" "length pad' = 4" by (rule reply_fields [OF len])
  have "magic = 0x50524241" "status = 0" using ok(1) by (simp_all add: reply_ok_def buf go_const)
  note buf = buf [unfolded this]
  have client: "reply_client buf = no_client\<lparr>cStatus := 0, cHandle := handle, cSlotSize := slot,
      cInlineBudget := budget, cQueueCapacity := cap, cArenaSize := arena, cAttachedEpoch := epoch\<rparr>"
    by (simp add: reply_client_def buf)
  obtain fd0 fd1 fd2 where three: "fds = [fd0, fd1, fd2]"
    using ok(1) by (auto simp: reply_ok_def length_Suc_conv numeral_3_eq_3)
  have "osRecv os = Inr (48, le32 0x50524241 @ le32 0 @ le32 handle @ pad @ le32 slot @ le32 budget @ le32 cap
      @ pad' @ le64 arena @ le64 epoch, oob, [fd0, fd1, fd2])"
    using recv(1) fds three unfolding buf(1) by simp
  moreover obtain arenaMem where "osMmap os CtlRegion fd0 (of_nat ctlBytes) = Inr (bmCtl m)"
    "osMmap os ArenaRegion fd1 (16 + arena) = Inr arenaMem" "osMmap os QpRegion fd2 (qpairBytes slot cap) = Inr (bmQp m)"
    "AttachControl (bmCtl m) = Inr (bmCtl m)" "AttachQueuePair (bmQp m) = Inr qp"
    using ok(2,4) by (auto simp: map_ok_def client three)
  moreover have c: "c = \<lparr>cHandle = handle, cStatus = 0, cSlotSize = slot, cInlineBudget = budget, cQueueCapacity = cap,
             cArenaSize = arena, cAttachedEpoch = epoch, cControl = True, cQp = qp, cCtlMem = True,
             cArena = True, cQpMem = True, cPendingRead = False\<rparr>"
    unfolding ok(3) client by (simp add: no_client_def)
  moreover from c have qp: "cQp c = qp" by simp
  moreover have ?send using ok(1) by (simp add: reply_ok_def attach_request_bytes)
  ultimately show "?send \<and> ?r" using buf(2,3) unfolding qp by blast
next
  assume "?send \<and> ?r"
  then obtain handle pad slot budget cap pad' arena epoch oob fd0 fd1 fd2 arenaMem where
    r: "osSend os (attach_request cl ref) = None" "length pad = 4" "length pad' = 4"
    "osRecv os = Inr (48, le32 0x50524241 @ le32 0 @ le32 handle @ pad @ le32 slot @ le32 budget @ le32 cap
             @ pad' @ le64 arena @ le64 epoch, oob, [fd0, fd1, fd2])"
    "osMmap os CtlRegion fd0 (of_nat ctlBytes) = Inr (bmCtl m)" "osMmap os ArenaRegion fd1 (16 + arena) = Inr arenaMem"
    "osMmap os QpRegion fd2 (qpairBytes slot cap) = Inr (bmQp m)"
    "AttachControl (bmCtl m) = Inr (bmCtl m)" "AttachQueuePair (bmQp m) = Inr (cQp c)"
    and c: "c = \<lparr>cHandle = handle, cStatus = 0, cSlotSize = slot, cInlineBudget = budget, cQueueCapacity = cap,
             cArenaSize = arena, cAttachedEpoch = epoch, cControl = True, cQp = cQp c, cCtlMem = True,
             cArena = True, cQpMem = True, cPendingRead = False\<rparr>"
    unfolding attach_request_bytes by blast
  define buf where "buf = le32 0x50524241 @ le32 0 @ le32 handle @ pad @ le32 slot @ le32 budget @ le32 cap
             @ pad' @ le64 arena @ le64 epoch"
  have client: "reply_client buf = no_client\<lparr>cStatus := 0, cHandle := handle, cSlotSize := slot,
      cInlineBudget := budget, cQueueCapacity := cap, cArenaSize := arena, cAttachedEpoch := epoch\<rparr>"
    by (simp add: reply_client_def buf_def r)
  have "reply_ok os cl ref buf [fd0, fd1, fd2]"
    using r parseRights_received [OF assms r(4)] by (simp add: reply_ok_def buf_def go_const)
  moreover have "map_ok os (reply_client buf) [fd0, fd1, fd2] (bmCtl m) (bmQp m) (cQp c)"
    using r by (simp add: map_ok_def client)
  moreover have "Some (c, m) = Some ((reply_client buf)\<lparr>cCtlMem := True, cArena := True, cQpMem := True,
      cControl := True, cQp := cQp c\<rparr>, \<lparr>bmCtl = bmCtl m, bmQp = bmQp m\<rparr>)"
    by (subst c) (simp add: client no_client_def)
  ultimately show ?l unfolding attach_success by blast
qed

lemma attach_succeeds_iff_witness:
  "\<exists>log. AttachAs host_os 1 9 = (Some (host_client, \<lparr>bmCtl = host_control, bmQp = host_qpair\<rparr>), None, log)
     \<and> cInlineBudget host_client = 0 \<and> cSlotSize host_client = 64"
proof -
  have fields: "host_client = \<lparr>cHandle = 7, cStatus = 0, cSlotSize = 64, cInlineBudget = 0, cQueueCapacity = 2,
      cArenaSize = 4096, cAttachedEpoch = 5, cControl = True, cQp = cQp host_client, cCtlMem = True,
      cArena = True, cQpMem = True, cPendingRead = False\<rparr>" and qp: "cQp host_client = laid_out_pair 64 2"
    by (simp_all add: host_client_def reply_client_def host_reply_def no_client_def go_const)
  have "osRecv host_os = Inr (48, le32 0x50524241 @ le32 0 @ le32 7 @ replicate 4 0 @ le32 64 @ le32 0 @ le32 2
      @ replicate 4 0 @ le64 4096 @ le64 5, [1], [5, 6, 8])"
    by (simp add: host_os_def host_reply_def go_const)
  moreover have "osMmap host_os CtlRegion 5 n = Inr host_control" "osMmap host_os ArenaRegion 6 n = Inr []"
    "osMmap host_os QpRegion 8 n = Inr host_qpair" "osSend host_os b = None" for n b
    by (simp_all add: host_os_def)
  moreover have "length (replicate 4 (0 :: byte)) = 4" by simp
  moreover have "AttachQueuePair host_qpair = Inr (cQp host_client)" by (simp only: qp host_qpair_attaches)
  ultimately have "\<exists>log. AttachAs host_os 1 9 = (Some (host_client, \<lparr>bmCtl = host_control, bmQp = host_qpair\<rparr>), None, log)"
    unfolding attach_succeeds_iff [OF host_delivers] bus_mem.select_convs using fields host_control_attaches(1) by blast
  moreover have "cInlineBudget host_client = 0 \<and> cSlotSize host_client = 64"
    by (subst fields, subst (2) fields) simp
  ultimately show ?thesis by blast
qed

text \<open>
  What the host promises about the regions it hands out: the rings lie behind the header and apart
  from each other, their slots have the announced size, a slot holds a frame header, and the epoch
  of the control region is the announced one.
\<close>

definition host_layout :: "Client \<Rightarrow> bus_mem \<Rightarrow> bool" where
  "host_layout c m \<longleftrightarrow>
     (let q = cQp c in qpBytes \<le> rBase (qpInbound q) \<and> qpBytes \<le> rBase (qpOutbound q)
       \<and> (ring_end (qpInbound q) \<le> rBase (qpOutbound q) \<or> ring_end (qpOutbound q) \<le> rBase (qpInbound q))
       \<and> rSlotSize (qpInbound q) = cSlotSize c \<and> rSlotSize (qpOutbound q) = cSlotSize c
       \<and> HdrLen \<le> unat (cSlotSize c) \<and> Control_Epoch (bmCtl m) = cAttachedEpoch c)"

text \<open>C40: A client attached to a host that keeps its promises starts in the invariant under which
  sending and receiving are correct, with nothing given out and the host's epoch.\<close>

theorem attach_establishes_inv:
  assumes "AttachAs os cl ref = (Some (c, m), None, log)" and "host_layout c m"
  shows "client_inv c m \<and> \<not> Client_EpochChanged c m \<and> \<not> cPendingRead c"
proof -
  have "\<exists>log. AttachAs os cl ref = (Some (c, m), None, log)" using assms(1) by blast
  then obtain buf qp where c: "c = (reply_client buf)\<lparr>cCtlMem := True, cArena := True, cQpMem := True,
      cControl := True, cQp := qp\<rparr>" and qp: "AttachQueuePair (bmQp m) = Inr qp"
    unfolding attach_success by (auto simp: map_ok_def)
  have rings: "ring_ok (qpInbound qp) (bmQp m)" "ring_ok (qpOutbound qp) (bmQp m)"
    using qp by (simp_all add: attach_queue_pair_facts)
  have flags: "cControl c" "cQp c = qp" "\<not> cPendingRead c"
    by (simp_all add: c reply_client_def no_client_def)
  show ?thesis
    using assms(2) rings flags
    by (simp add: client_inv_def client_ok_def qp_ok_def host_layout_def Let_def Client_EpochChanged_def)
qed

lemma attach_establishes_inv_witness: "client_inv host_client \<lparr>bmCtl = host_control, bmQp = host_qpair\<rparr>"
proof -
  obtain log where run: "AttachAs host_os 1 9
      = (Some (host_client, \<lparr>bmCtl = host_control, bmQp = host_qpair\<rparr>), None, log)"
    using host_accepts by blast
  have fields: "cQp host_client = laid_out_pair 64 2" "cSlotSize host_client = 64" "cAttachedEpoch host_client = 5"
    by (simp_all add: host_client_def reply_client_def host_reply_def)
  have "host_layout host_client \<lparr>bmCtl = host_control, bmQp = host_qpair\<rparr>"
    unfolding host_layout_def Let_def fields laid_out_small
    by (simp add: host_control_attaches fields ring_end_laid_out)
      (simp add: laid_out_ring_def go_const)
  from attach_establishes_inv [OF run this] show ?thesis by simp
qed

end
