(* ===== verification/Connect.thy ===== *)
theory Connect
  imports Attach Invocation
begin

text \<open>
  The connection loops, \<open>ConnectClient\<close> and \<open>keepAlive\<close> of \<open>server-go/bus/client_connect.go\<close> and
  \<open>connectModule\<close> of \<open>server-go/bus/module_runtime.go\<close>. A loop that meets a refused connection for
  ever never ends, so it is a partial function over the schedule of its attempts.
\<close>

section \<open>One attempt\<close>

text \<open>
  What the environment does in one round: the results of \<open>Socket\<close> and \<open>Connect\<close>, the calls of the
  attach, and whether the wait ends because the context is done or because the timer fires.
\<close>

record attempt =
  atSocket :: "error + fd"
  atConnect :: "error option"
  atAttach :: attach_os
  atCtxDone :: bool

definition connect_attempt ::
  "attempt \<Rightarrow> u32 \<Rightarrow> u32 \<Rightarrow> ((Client \<times> bus_mem) option \<times> error option) option \<times> os_event list" where
  "connect_attempt a principalClass principalRef =
    (case atSocket a of
       Inl e \<Rightarrow> (Some (None, Some e), [])
     | Inr fd \<Rightarrow>
        (case atConnect a of
           None \<Rightarrow>
            (case AttachAs (atAttach a) principalClass principalRef of
               (client, attachErr, log) \<Rightarrow> (Some (client, attachErr), Opened fd # log @ [Closed fd]))
         | Some e \<Rightarrow>
            if \<not> errors_Is e ECONNREFUSED then (Some (None, Some e), [Opened fd, Closed fd])
            else if atCtxDone a then (Some (None, Some CtxErr), [Opened fd, Closed fd])
            else (None, [Opened fd, Closed fd])))"

section \<open>The loops\<close>

partial_function (option) connect_from ::
  "(nat \<Rightarrow> attempt) \<Rightarrow> u32 \<Rightarrow> u32 \<Rightarrow> nat \<Rightarrow> attached option" where
  "connect_from atts principalClass principalRef i =
    (case connect_attempt (atts i) principalClass principalRef of
       (Some (client, err), log) \<Rightarrow> Some (client, err, log)
     | (None, log) \<Rightarrow> Option.bind (connect_from atts principalClass principalRef (Suc i))
         (\<lambda>(client, err, log'). Some (client, err, log @ log')))"

definition connectModule :: "(nat \<Rightarrow> attempt) \<Rightarrow> 'h ModuleProcessConfig \<Rightarrow> attached option" where
  "connectModule atts config = connect_from atts (cfgPrincipalClass config) (cfgPrincipalRef config) 0"

text \<open>
  \<open>ConnectClient\<close> tests the path, replaces a nil context by one that never ends, and starts the
  heartbeat goroutine when the attach succeeded; the last component says whether it did.
\<close>

definition ConnectClient ::
  "(nat \<Rightarrow> attempt) \<Rightarrow> bool \<Rightarrow> string \<Rightarrow> u32 \<Rightarrow> u32 \<Rightarrow> (attached \<times> bool) option" where
  "ConnectClient atts ctxGiven socketPath principalClass principalRef =
    (if socketPath = [] then Some ((None, Some ErrModuleConfig, []), False)
     else
      let atts = (if ctxGiven then atts else (\<lambda>i. (atts i)\<lparr>atCtxDone := False\<rparr>))
      in Option.bind (connect_from atts principalClass principalRef 0)
           (\<lambda>(client, err, log). Some ((client, err, log), err = None)))"

section \<open>Heartbeats of an idle client\<close>

datatype ticker_event = CtxDone | Tick u64

fun keepAlive :: "(u64 \<Rightarrow> 's \<Rightarrow> 's) \<Rightarrow> ticker_event list \<Rightarrow> 's \<Rightarrow> 's" where
  "keepAlive heartbeat [] s = s"
| "keepAlive heartbeat (CtxDone # events) s = s"
| "keepAlive heartbeat (Tick now # events) s =
     keepAlive heartbeat events (if now \<noteq> 0 then heartbeat now s else s)"

text \<open>The beats of a run: the clock readings that are not failures, up to the end of the context.\<close>

fun beats :: "ticker_event list \<Rightarrow> u64 list" where
  "beats [] = []"
| "beats (CtxDone # events) = []"
| "beats (Tick now # events) = (if now \<noteq> 0 then now # beats events else beats events)"

text \<open>The interface \<open>heartbeater\<close>: what the goroutine may rely on, and what it may not disturb.\<close>

locale heartbeater =
  fixes heartbeat :: "u64 \<Rightarrow> 's \<Rightarrow> 's"
    and ok :: "'s \<Rightarrow> bool"
    and view :: "'s \<Rightarrow> 'v"
    and beat :: "'s \<Rightarrow> u64"
  assumes beat_ok: "ok s \<Longrightarrow> ok (heartbeat now s)"
    and beat_view: "ok s \<Longrightarrow> view (heartbeat now s) = view s"
    and beat_written: "ok s \<Longrightarrow> beat (heartbeat now s) = now"
begin

lemma keepAlive_ok:
  assumes "ok s"
  shows "ok (keepAlive heartbeat events s) \<and> view (keepAlive heartbeat events s) = view s
     \<and> beat (keepAlive heartbeat events s) = last (beat s # beats events)"
  using assms
proof (induction events arbitrary: s)
  case (Cons e es)
  then show ?case by (cases e) (simp_all add: beat_ok beat_view beat_written)
qed simp

end

definition client_beat :: "u64 \<Rightarrow> bus_mem \<Rightarrow> bus_mem" where
  "client_beat now m = m\<lparr>bmQp := QueuePair_SetHeartbeat (bmQp m) now\<rparr>"

lemma client_beat_is_Heartbeat: "cControl c \<Longrightarrow> Client_Heartbeat c now m = Return (client_beat now m)"
  by (simp add: Client_Heartbeat_def client_beat_def)

lemma client_beat_frame:
  assumes "client_ok c m"
  shows "client_ok c (client_beat now m)" and "inbound c (client_beat now m) = inbound c m"
    and "outbound c (client_beat now m) = outbound c m" and "bmCtl (client_beat now m) = bmCtl m"
    and "load64 qpOffHeartbeat (bmQp (client_beat now m)) = now"
proof -
  have qp: "qp_ok (cQp c) (bmQp m)" using assms by (simp add: client_ok_def)
  note frame = heartbeat_frame [OF qp, of now]
  show "client_ok c (client_beat now m)" "inbound c (client_beat now m) = inbound c m"
    "outbound c (client_beat now m) = outbound c m" "bmCtl (client_beat now m) = bmCtl m"
    using assms frame by (simp_all add: client_beat_def client_ok_def inbound_def outbound_def)
  have "qpOffHeartbeat + 8 \<le> length (bmQp m)"
    using qp_ok_length [OF qp] by (simp add: go_const)
  then show "load64 qpOffHeartbeat (bmQp (client_beat now m)) = now"
    by (simp add: client_beat_def QueuePair_SetHeartbeat_def load64_PutUint64)
qed

interpretation client_beats: heartbeater client_beat "client_ok c"
  "\<lambda>m. (inbound c m, outbound c m, bmCtl m)" "\<lambda>m. load64 qpOffHeartbeat (bmQp m)" for c
  by unfold_locales (simp_all add: client_beat_frame)

section \<open>What the loops do\<close>

definition retries :: "attempt \<Rightarrow> bool" where
  "retries a \<longleftrightarrow> (\<exists>fd e. atSocket a = Inr fd \<and> atConnect a = Some e \<and> errors_Is e ECONNREFUSED)
     \<and> \<not> atCtxDone a"

lemma connect_attempt_retry: "fst (connect_attempt a cl ref) = None \<longleftrightarrow> retries a"
  by (auto simp: connect_attempt_def retries_def split: sum.split option.split prod.split)

lemma connect_attempt_ledger:
  assumes "connect_attempt a cl ref = (out, log)"
  shows "delivers (atAttach a) \<Longrightarrow> closed log = opened log"
    and "mapped log = unmapped log + (case out of None \<Rightarrow> {#} | Some (res, _) \<Rightarrow> held res)"
proof -
  obtain res err log' where att: "AttachAs (atAttach a) cl ref = (res, err, log')" by (metis prod_cases3)
  have bal: "mapped log' = unmapped log' + held res"
    using attach_balanced [of "atAttach a" cl ref] by (simp add: balanced_def att)
  show "closed log = opened log" if "delivers (atAttach a)"
    using assms attach_closes [OF that, of cl ref]
    by (auto simp: connect_attempt_def att ledger_simps split: sum.splits option.splits if_splits)
  show "mapped log = unmapped log + (case out of None \<Rightarrow> {#} | Some (res, _) \<Rightarrow> held res)"
    using assms bal
    by (auto simp: connect_attempt_def att held_def ledger_simps split: sum.splits option.splits if_splits)
qed

text \<open>The loop in closed form: refused attempts up to the first one that ends it.\<close>

definition attempts_log :: "(nat \<Rightarrow> attempt) \<Rightarrow> u32 \<Rightarrow> u32 \<Rightarrow> nat \<Rightarrow> nat \<Rightarrow> os_event list" where
  "attempts_log atts cl ref i n = concat (map (\<lambda>j. snd (connect_attempt (atts j) cl ref)) [i..<Suc n])"

lemma connect_from_stops:
  assumes "i \<le> n" and "\<And>j. i \<le> j \<Longrightarrow> j < n \<Longrightarrow> retries (atts j)"
    and "fst (connect_attempt (atts n) cl ref) = Some (res, err)"
  shows "connect_from atts cl ref i = Some (res, err, attempts_log atts cl ref i n)"
  using assms
proof (induction rule: inc_induct)
  case base
  then show ?case
    by (subst connect_from.simps) (auto simp: attempts_log_def split: prod.split)
next
  case (step k)
  have "fst (connect_attempt (atts k) cl ref) = None"
    using step.prems(1) [of k] step.hyps by (simp add: connect_attempt_retry)
  moreover have "connect_from atts cl ref (Suc k) = Some (res, err, attempts_log atts cl ref (Suc k) n)"
    using step by simp
  moreover have "[k..<Suc n] = k # [Suc k..<Suc n]"
    using step.hyps by (intro upt_conv_Cons) simp
  ultimately show ?case
    by (subst connect_from.simps) (auto simp: attempts_log_def split: prod.split)
qed

lemma connect_from_Some:
  assumes "connect_from atts cl ref i = Some r"
  shows "\<exists>n\<ge>i. \<not> retries (atts n)"
  using assms
proof (induction rule: connect_from.raw_induct [rotated, consumes 1])
  case (1 rec atts cl ref i r)
  show ?case
  proof (cases "retries (atts i)")
    case True
    then obtain log r' where "rec atts cl ref (Suc i) = Some r'"
      using 1(2) connect_attempt_retry [of "atts i" cl ref]
      by (auto split: prod.splits option.splits simp: bind_eq_Some_conv)
    with 1(1) show ?thesis by (meson Suc_leD)
  qed auto
qed

lemma connect_from_iff:
  "connect_from atts cl ref i = Some out \<longleftrightarrow>
     (\<exists>n\<ge>i. (\<forall>j. i \<le> j \<and> j < n \<longrightarrow> retries (atts j)) \<and> \<not> retries (atts n)
        \<and> (\<exists>res err. fst (connect_attempt (atts n) cl ref) = Some (res, err)
             \<and> out = (res, err, attempts_log atts cl ref i n)))"
    (is "?l \<longleftrightarrow> ?r")
proof
  assume l: ?l
  let ?P = "\<lambda>n. i \<le> n \<and> \<not> retries (atts n)"
  have ex: "?P (LEAST n. ?P n)" using connect_from_Some [OF l] by (metis (mono_tags, lifting) LeastI)
  have before: "retries (atts j)" if "i \<le> j" "j < (LEAST n. ?P n)" for j
    using not_less_Least [OF that(2)] that(1) by blast
  obtain res err where out: "fst (connect_attempt (atts (LEAST n. ?P n)) cl ref) = Some (res, err)"
    using ex connect_attempt_retry [of "atts (LEAST n. ?P n)" cl ref] by fastforce
  show ?r
    using connect_from_stops [of i "LEAST n. ?P n" atts cl ref res err] ex out l before
    by (intro exI [of _ "LEAST n. ?P n"]) auto
next
  assume ?r
  then show ?l using connect_from_stops by (metis (no_types, lifting))
qed

lemma attempts_ledger:
  assumes "\<And>j. i \<le> j \<Longrightarrow> j < n \<Longrightarrow> retries (atts j)" and "i \<le> n"
    and "fst (connect_attempt (atts n) cl ref) = Some (res, err)"
  shows "((\<forall>j. delivers (atAttach (atts j))) \<longrightarrow> closed (attempts_log atts cl ref i n) = opened (attempts_log atts cl ref i n))
     \<and> mapped (attempts_log atts cl ref i n) = unmapped (attempts_log atts cl ref i n) + held res"
  using assms(2,1,3)
proof (induction rule: inc_induct)
  case base
  then show ?case
    using connect_attempt_ledger [of "atts n" cl ref "Some (res, err)"]
    by (cases "connect_attempt (atts n) cl ref") (auto simp: attempts_log_def)
next
  case (step k)
  obtain log where now: "connect_attempt (atts k) cl ref = (None, log)"
    using step.prems(1) [of k] step.hyps connect_attempt_retry [of "atts k" cl ref]
    by (cases "connect_attempt (atts k) cl ref") auto
  have "[k..<Suc n] = k # [Suc k..<Suc n]"
    using step.hyps by (intro upt_conv_Cons) simp
  then have "attempts_log atts cl ref k n = log @ attempts_log atts cl ref (Suc k) n"
    by (simp add: attempts_log_def now)
  with step connect_attempt_ledger [OF now] show ?case by (simp add: ledger_simps)
qed

section \<open>Properties\<close>

text \<open>C30: Connecting waits for a host that refuses the connection and for nothing else. The loop returns
  exactly when some attempt is not a refusal during which the context stays alive, with the outcome
  of the first such attempt; every socket opened and every descriptor received on the way is closed (given
  what the library promises of the control buffers), and what is mapped at the end is what the returned
  client holds.\<close>

theorem connect_module_iff:
  "(connectModule atts config = Some out \<longleftrightarrow>
     (\<exists>n. (\<forall>j<n. retries (atts j)) \<and> \<not> retries (atts n)
        \<and> (\<exists>res err. fst (connect_attempt (atts n) (cfgPrincipalClass config) (cfgPrincipalRef config))
              = Some (res, err)
            \<and> out = (res, err, attempts_log atts (cfgPrincipalClass config) (cfgPrincipalRef config) 0 n))))
   \<and> (connectModule atts config = Some out \<longrightarrow>
       ((\<forall>n. delivers (atAttach (atts n))) \<longrightarrow> closed (snd (snd out)) = opened (snd (snd out)))
       \<and> mapped (snd (snd out)) = unmapped (snd (snd out)) + held (fst out))"
proof -
  have iff: "connectModule atts config = Some out \<longleftrightarrow>
     (\<exists>n. (\<forall>j<n. retries (atts j)) \<and> \<not> retries (atts n)
        \<and> (\<exists>res err. fst (connect_attempt (atts n) (cfgPrincipalClass config) (cfgPrincipalRef config))
              = Some (res, err)
            \<and> out = (res, err, attempts_log atts (cfgPrincipalClass config) (cfgPrincipalRef config) 0 n)))"
    unfolding connectModule_def connect_from_iff by simp
  moreover have "((\<forall>n. delivers (atAttach (atts n))) \<longrightarrow> closed (snd (snd out)) = opened (snd (snd out)))
       \<and> mapped (snd (snd out)) = unmapped (snd (snd out)) + held (fst out)"
    if "connectModule atts config = Some out"
  proof -
    obtain n res err where n: "\<forall>j<n. retries (atts j)"
      "fst (connect_attempt (atts n) (cfgPrincipalClass config) (cfgPrincipalRef config)) = Some (res, err)"
      "out = (res, err, attempts_log atts (cfgPrincipalClass config) (cfgPrincipalRef config) 0 n)"
      using \<open>connectModule atts config = Some out\<close> unfolding iff by blast
    then show ?thesis using attempts_ledger [of 0 n atts "cfgPrincipalClass config" "cfgPrincipalRef config" res err] by simp
  qed
  ultimately show ?thesis by blast
qed

text \<open>A host that refuses twice and then accepts.\<close>

definition late_host :: "nat \<Rightarrow> attempt" where
  "late_host i = \<lparr>atSocket = Inr (20 + i), atConnect = (if i < 2 then Some ECONNREFUSED else None),
     atAttach = host_os, atCtxDone = False\<rparr>"

definition sample_config :: "unit ModuleProcessConfig" where
  "sample_config = \<lparr>cfgSocketPath = ''bus'', cfgModuleName = ''routing'', cfgPrincipalClass = 1,
     cfgPrincipalRef = 9, cfgStages = [\<lparr>stEventKind = 6401, stStageID = 1\<rparr>], cfgHandler = Some ()\<rparr>"

lemma connect_module_iff_witness:
  "\<exists>log. connectModule late_host sample_config
     = Some (Some (host_client, \<lparr>bmCtl = host_control, bmQp = host_qpair\<rparr>), None, log)
   \<and> closed log = opened log"
proof -
  let ?m = "\<lparr>bmCtl = host_control, bmQp = host_qpair\<rparr>"
  obtain log where att: "AttachAs host_os 1 9 = (Some (host_client, ?m), None, log)"
    using host_accepts by blast
  let ?out = "(Some (host_client, ?m), None, attempts_log late_host 1 9 0 2)"
  have "fst (connect_attempt (late_host 2) 1 9) = Some (Some (host_client, ?m), None)"
    by (simp add: connect_attempt_def late_host_def att)
  moreover have "\<forall>j<2. retries (late_host j)" and "\<not> retries (late_host 2)"
    by (simp_all add: retries_def late_host_def)
  ultimately have "connectModule late_host sample_config = Some ?out"
    using connect_module_iff [of late_host sample_config ?out]
    by (auto simp: sample_config_def intro!: exI [of _ 2])
  moreover from this have "closed (attempts_log late_host 1 9 0 2) = opened (attempts_log late_host 1 9 0 2)"
    using connect_module_iff [of late_host sample_config ?out] host_delivers by (simp add: late_host_def)
  ultimately show ?thesis by blast
qed

text \<open>The heartbeat of an idle client. Whatever ticks arrive until its context ends, the goroutine
  keeps the invariant of the client and changes neither queue nor the control region; the host finds
  the last clock reading that was not a failure.\<close>

theorem keep_alive_spec:
  assumes "client_ok c m" and "m' = keepAlive client_beat events m"
  shows "client_ok c m' \<and> inbound c m' = inbound c m \<and> outbound c m' = outbound c m \<and> bmCtl m' = bmCtl m
     \<and> load64 qpOffHeartbeat (bmQp m') = last (load64 qpOffHeartbeat (bmQp m) # beats events)"
  using client_beats.keepAlive_ok [OF assms(1), of events] by (simp add: assms(2))

lemma keep_alive_spec_witness:
  "load64 qpOffHeartbeat (bmQp (keepAlive client_beat [Tick 5, Tick 0, Tick 8, CtxDone, Tick 9] sample_bus)) = 8"
  using keep_alive_spec [OF sample_client_ok(1) refl, of "[Tick 5, Tick 0, Tick 8, CtxDone, Tick 9]"] by simp

end
