(* ===== verification/Bus.thy ===== *)
theory Bus
  imports Connect
begin

text \<open>
  The narrow surface of a client that the runtime and the caller use, the Go interfaces \<open>moduleBus\<close>
  (\<open>server-go/bus/module_runtime.go\<close>) and \<open>callerBus\<close> (\<open>server-go/bus/module_caller.go\<close>): records of
  operations over a bus state, the laws the code relies on as locales, and the real implementation,
  \<open>Client\<close>, as an interpretation of both.
\<close>

section \<open>The interfaces\<close>

record 's moduleBus =
  mbPoll :: "'s \<Rightarrow> pollResult \<times> 's"
  mbReplyFragment :: "u32 \<Rightarrow> u64 \<Rightarrow> byte list \<Rightarrow> bool \<Rightarrow> 's \<Rightarrow> error option \<times> 's"
  mbHeartbeat :: "u64 \<Rightarrow> 's \<Rightarrow> 's"
  mbEpochChanged :: "'s \<Rightarrow> bool"
  mbInlineBudget :: "'s \<Rightarrow> u32"

record 's callerBus =
  cbPoll :: "'s \<Rightarrow> pollResult \<times> 's"
  cbRequestFragment :: "u32 \<Rightarrow> u64 \<Rightarrow> byte list \<Rightarrow> bool \<Rightarrow> 's \<Rightarrow> error option \<times> 's"
  cbCancel :: "u32 \<Rightarrow> u64 \<Rightarrow> 's \<Rightarrow> error option \<times> 's"
  cbInlineBudget :: "'s \<Rightarrow> u32"

section \<open>An ordered outbound stream\<close>

text \<open>Sending a list of fragments one after the other, each as soon as it is accepted.\<close>

fun send_list :: "(u32 \<Rightarrow> u64 \<Rightarrow> byte list \<Rightarrow> bool \<Rightarrow> 's \<Rightarrow> error option \<times> 's)
   \<Rightarrow> u32 \<Rightarrow> u64 \<Rightarrow> (byte list \<times> bool) list \<Rightarrow> 's \<Rightarrow> error option \<times> 's" where
  "send_list sendf kind corr [] s = (None, s)"
| "send_list sendf kind corr ((p, m) # frs) s =
    (case sendf kind corr p m s of
       (Some e, s') \<Rightarrow> (Some e, s')
     | (None, s') \<Rightarrow> send_list sendf kind corr frs s')"

text \<open>
  What a sender relies on: a fragment that is accepted is appended to the outbound stream, one that
  is refused leaves the bus as it was, and only a full ring makes it worth trying again.
  \<open>stream\<close> is what the host will read, in order; \<open>image\<close> is the form in which a fragment appears there.
\<close>

locale outbound_stream =
  fixes sendf :: "u32 \<Rightarrow> u64 \<Rightarrow> byte list \<Rightarrow> bool \<Rightarrow> 's \<Rightarrow> error option \<times> 's"
    and ok :: "'s \<Rightarrow> bool"
    and stream :: "'s \<Rightarrow> 'e list"
    and budget :: "'s \<Rightarrow> u32"
    and image :: "'s \<Rightarrow> u32 \<Rightarrow> u64 \<Rightarrow> byte list \<Rightarrow> bool \<Rightarrow> 'e"
    and same :: "'s \<Rightarrow> 's \<Rightarrow> bool"
  assumes accepted: "ok s \<Longrightarrow> sendf kind corr p has_more s = (None, s') \<Longrightarrow>
      ok s' \<and> stream s' = stream s @ [image s kind corr p has_more] \<and> same s s'"
    and refused: "ok s \<Longrightarrow> sendf kind corr p has_more s = (Some e, s') \<Longrightarrow> s' = s"
    and same_refl: "same s s"
    and same_trans: "same s t \<Longrightarrow> same t u \<Longrightarrow> same s u"
    and same_image: "same s t \<Longrightarrow> image t = image s"
    and same_budget: "same s t \<Longrightarrow> budget t = budget s"
begin

text \<open>What the other side may do to the stream in the meantime: take from its front.\<close>

definition host_reads :: "('s \<Rightarrow> 's) \<Rightarrow> bool" where
  "host_reads h \<longleftrightarrow> (\<forall>s. ok s \<longrightarrow> ok (h s) \<and> same s (h s) \<and> (\<exists>k. stream (h s) = drop k (stream s)))"

lemma send_list_stream:
  assumes "ok s" and "send_list sendf kind corr frs s = (err, s')"
  shows "\<exists>sent rest. frs = sent @ rest \<and> (err = None \<longleftrightarrow> rest = []) \<and> ok s' \<and> same s s'
     \<and> stream s' = stream s @ map (\<lambda>(p, m). image s kind corr p m) sent"
  using assms
proof (induction frs arbitrary: s)
  case Nil
  then show ?case by (simp add: same_refl)
next
  case (Cons f frs)
  obtain p m where f: "f = (p, m)" by fastforce
  obtain e s1 where one: "sendf kind corr p m s = (e, s1)" by fastforce
  show ?case
  proof (cases e)
    case (Some x)
    then have "s' = s" "err = Some x" using Cons.prems one refused [of s kind corr p m x s1] by (auto simp: f)
    then show ?thesis using Cons.prems same_refl by (intro exI [of _ "[]"] exI [of _ "f # frs"]) simp
  next
    case None
    then have s1: "ok s1" "stream s1 = stream s @ [image s kind corr p m]" "same s s1"
      and rest: "send_list sendf kind corr frs s1 = (err, s')"
      using Cons.prems one accepted [of s kind corr p m s1] by (auto simp: f)
    from Cons.IH [OF s1(1) rest] obtain sent rest where ih: "frs = sent @ rest" "err = None \<longleftrightarrow> rest = []"
      "ok s'" "same s1 s'" "stream s' = stream s1 @ map (\<lambda>(p, m). image s1 kind corr p m) sent"
      by blast
    then show ?thesis
      using s1 same_trans [OF s1(3) ih(4)] same_image [OF s1(3)]
      by (intro exI [of _ "(p, m) # sent"] exI [of _ rest]) (simp add: f)
  qed
qed

end

section \<open>The client as a bus\<close>

type_synonym client_state = "Client \<times> bus_mem"

definition client_module_bus :: "client_state moduleBus" where
  "client_module_bus = \<lparr>
     mbPoll = (\<lambda>(c, m). case Poll c m of (r, c', m') \<Rightarrow> (r, (c', m'))),
     mbReplyFragment = (\<lambda>kind corr p has_more (c, m).
       case ReplyFragment c kind corr p has_more m of (e, m') \<Rightarrow> (e, (c, m'))),
     mbHeartbeat = (\<lambda>now (c, m). (c, client_beat now m)),
     mbEpochChanged = (\<lambda>(c, m). Client_EpochChanged c m),
     mbInlineBudget = (\<lambda>(c, m). moduleInlineBudget c)\<rparr>"

definition client_caller_bus :: "client_state callerBus" where
  "client_caller_bus = \<lparr>
     cbPoll = (\<lambda>(c, m). case Poll c m of (r, c', m') \<Rightarrow> (r, (c', m'))),
     cbRequestFragment = (\<lambda>kind corr p has_more (c, m).
       case RequestFragment c kind corr p has_more m of (e, m') \<Rightarrow> (e, (c, m'))),
     cbCancel = (\<lambda>kind corr (c, m). case Client_Cancel c kind corr m of (e, m') \<Rightarrow> (e, (c, m'))),
     cbInlineBudget = (\<lambda>(c, m). moduleInlineBudget c)\<rparr>"

text \<open>The stream of a client: what a receiver makes of each slot of the outbound ring.\<close>

definition client_stream :: "client_state \<Rightarrow> Event option list" where
  "client_stream s = (case s of (c, m) \<Rightarrow> map (slot_event (cSlotSize c)) (outbound c m))"

definition fragment_event :: "u16 \<Rightarrow> client_state \<Rightarrow> u32 \<Rightarrow> u64 \<Rightarrow> byte list \<Rightarrow> bool \<Rightarrow> Event option" where
  "fragment_event flag s kind corr p has_more =
    Some \<lparr>evFrame = emit_frame (fst s) (if has_more then flag OR FMore else flag) kind corr p, evPayload = p\<rparr>"

text \<open>Two states of one client: everything but the pending slot and the shared memory is constant.\<close>

definition same_client :: "client_state \<Rightarrow> client_state \<Rightarrow> bool" where
  "same_client s t \<longleftrightarrow> fst t = fst s"

lemma client_send:
  assumes "client_ok c m" and "flag = FRequest \<or> flag = FReply"
    and "(if corr = 0 then (Some ErrProtocol, m) else if has_more \<and> length p = 0 then (Some ErrProtocol, m)
          else emit c (if has_more then flag OR FMore else flag) kind corr p m) = (e, m')"
  shows "(case e of
       None \<Rightarrow> client_ok c m' \<and> bmCtl m' = bmCtl m \<and> inbound c m' = inbound c m
         \<and> client_stream (c, m') = client_stream (c, m) @ [fragment_event flag (c, m) kind corr p has_more]
     | Some _ \<Rightarrow> m' = m)"
proof (cases "corr = 0 \<or> has_more \<and> length p = 0")
  case True
  then have "e = Some ErrProtocol \<and> m' = m" using assms(3) by (simp split: if_splits)
  then show ?thesis by simp
next
  case False
  let ?flags = "if has_more then flag OR FMore else flag"
  have send: "sendable ?flags corr p"
    using assms(2) False by (auto simp: sendable_def)
  have run: "emit c ?flags kind corr p m = (e, m')" using assms(3) False by (simp split: if_splits)
  show ?thesis
  proof (cases "emit_error c p m")
    case None
    then show ?thesis
      using emit_ok [OF assms(1) send None, of kind] run
      by (auto simp: client_stream_def fragment_event_def)
  next
    case (Some x)
    then show ?thesis using emit_refused [OF assms(1) send Some, of kind] run by simp
  qed
qed

interpretation client_replies: outbound_stream "mbReplyFragment client_module_bus"
  "\<lambda>(c, m). client_ok c m" client_stream "mbInlineBudget client_module_bus" "fragment_event FReply" same_client
proof unfold_locales
  fix s s' :: client_state and kind corr p has_more e
  obtain c m where s: "s = (c, m)" by fastforce
  { assume a: "case s of (c, m) \<Rightarrow> client_ok c m" "mbReplyFragment client_module_bus kind corr p has_more s = (None, s')"
    then obtain m' where m': "s' = (c, m')" "ReplyFragment c kind corr p has_more m = (None, m')"
      by (auto simp: client_module_bus_def s split: prod.splits)
    with a(1) client_send [of c m FReply corr has_more p kind None m']
    show "(case s' of (c, m) \<Rightarrow> client_ok c m)
        \<and> client_stream s' = client_stream s @ [fragment_event FReply s kind corr p has_more] \<and> same_client s s'"
      by (simp add: s ReplyFragment_def same_client_def)
  }
  { assume a: "case s of (c, m) \<Rightarrow> client_ok c m" "mbReplyFragment client_module_bus kind corr p has_more s = (Some e, s')"
    then obtain m' where m': "s' = (c, m')" "ReplyFragment c kind corr p has_more m = (Some e, m')"
      by (auto simp: client_module_bus_def s split: prod.splits)
    with a(1) client_send [of c m FReply corr has_more p kind "Some e" m']
    show "s' = s" by (simp add: s ReplyFragment_def)
  }
qed (auto simp: same_client_def fragment_event_def fun_eq_iff client_module_bus_def moduleInlineBudget_def split: prod.splits)

interpretation client_requests: outbound_stream "cbRequestFragment client_caller_bus"
  "\<lambda>(c, m). client_ok c m" client_stream "cbInlineBudget client_caller_bus" "fragment_event FRequest" same_client
proof unfold_locales
  fix s s' :: client_state and kind corr p has_more e
  obtain c m where s: "s = (c, m)" by fastforce
  { assume a: "case s of (c, m) \<Rightarrow> client_ok c m" "cbRequestFragment client_caller_bus kind corr p has_more s = (None, s')"
    then obtain m' where m': "s' = (c, m')" "RequestFragment c kind corr p has_more m = (None, m')"
      by (auto simp: client_caller_bus_def s split: prod.splits)
    with a(1) client_send [of c m FRequest corr has_more p kind None m']
    show "(case s' of (c, m) \<Rightarrow> client_ok c m)
        \<and> client_stream s' = client_stream s @ [fragment_event FRequest s kind corr p has_more] \<and> same_client s s'"
      by (simp add: s RequestFragment_def same_client_def)
  }
  { assume a: "case s of (c, m) \<Rightarrow> client_ok c m" "cbRequestFragment client_caller_bus kind corr p has_more s = (Some e, s')"
    then obtain m' where m': "s' = (c, m')" "RequestFragment c kind corr p has_more m = (Some e, m')"
      by (auto simp: client_caller_bus_def s split: prod.splits)
    with a(1) client_send [of c m FRequest corr has_more p kind "Some e" m']
    show "s' = s" by (simp add: s RequestFragment_def)
  }
qed (auto simp: same_client_def fragment_event_def fun_eq_iff client_caller_bus_def moduleInlineBudget_def split: prod.splits)

end
