(* ===== verification/Reply.thy ===== *)
theory Reply
  imports Bus
begin

text \<open>
  Replying to a request: \<open>validModuleStatus\<close>, \<open>replyModuleResult\<close> and \<open>invalidModuleRequest\<close> of
  \<open>server-go/bus/module_runtime.go\<close>. A reply is cut into fragments that fit the inline budget, each
  behind a header of its own, and a fragment that meets a full ring is tried again until it is
  accepted, the context ends or the host restarts. Because the host may never make room, the loops
  are partial functions over the schedule of the waits.
\<close>

section \<open>Fragments\<close>

text \<open>
  The cutting both loops of the package do: \<open>part\<close> bytes at a time, at least one fragment, \<open>more\<close> on
  all but the last.
\<close>

function frag_list :: "nat \<Rightarrow> byte list \<Rightarrow> (byte list \<times> bool) list" where
  "frag_list n xs = (if n = 0 \<or> length xs \<le> n then [(xs, False)]
     else (take n xs, True) # frag_list n (drop n xs))"
  by pat_completeness auto
termination by (relation "measure (\<lambda>(n, xs). length xs)") auto

declare frag_list.simps [simp del]

lemma frag_list_join: "concat (map fst (frag_list n xs)) = xs"
proof (induction n xs rule: frag_list.induct)
  case (1 n xs)
  then show ?case by (subst frag_list.simps) auto
qed

lemma frag_list_parts:
  assumes "0 < n" and "(p, m) \<in> set (frag_list n xs)"
  shows "length p \<le> n \<and> (m \<longrightarrow> length p = n)"
  using assms
proof (induction n xs rule: frag_list.induct)
  case (1 n xs)
  then show ?case by (subst (asm) (2) frag_list.simps) (auto split: if_splits)
qed

lemma frag_list_flags: "\<exists>ys p. frag_list n xs = ys @ [(p, False)] \<and> (\<forall>y\<in>set ys. snd y)"
proof (induction n xs rule: frag_list.induct)
  case (1 n xs)
  show ?case
  proof (cases "n = 0 \<or> length xs \<le> n")
    case True
    then show ?thesis by (subst frag_list.simps) simp
  next
    case False
    then obtain ys p where "frag_list n (drop n xs) = ys @ [(p, False)]" "\<forall>y\<in>set ys. snd y"
      using 1 by blast
    then show ?thesis
      using False by (subst frag_list.simps) (auto intro!: exI [of _ "(take n xs, True) # ys"])
  qed
qed

lemma frag_list_nonempty: "xs \<noteq> [] \<Longrightarrow> (p, m) \<in> set (frag_list n xs) \<Longrightarrow> p \<noteq> []"
proof (induction n xs rule: frag_list.induct)
  case (1 n xs)
  then show ?case by (subst (asm) (2) frag_list.simps) (auto split: if_splits)
qed

section \<open>Waiting for room\<close>

definition validModuleStatus :: "ModuleStatus \<Rightarrow> bool" where
  "validModuleStatus status \<longleftrightarrow> status \<le> ModuleStatusInternal"

text \<open>
  One wait: what the host does to the shared memory meanwhile, whether the wait ends because the
  context is done, and the clock afterwards.
\<close>

record 's wait =
  wtHost :: "'s \<Rightarrow> 's"
  wtCtxDone :: bool
  wtNow :: u64

text \<open>The waits used so far are counted by \<open>i\<close>.\<close>

partial_function (option) reply_retry ::
  "'s moduleBus \<Rightarrow> (nat \<Rightarrow> 's wait) \<Rightarrow> u32 \<Rightarrow> u64 \<Rightarrow> byte list \<Rightarrow> bool \<Rightarrow> nat \<Rightarrow> 's
   \<Rightarrow> (error option \<times> nat \<times> 's) option" where
  "reply_retry client waits kind correlation payload has_more i s =
    (case mbReplyFragment client kind correlation payload has_more s of
       (None, s) \<Rightarrow> Some (None, i, s)
     | (Some err, s) \<Rightarrow>
        if \<not> errors_Is err ErrWouldBlock then Some (Some err, i, s)
        else
         (let s = wtHost (waits i) s
          in if wtCtxDone (waits i) then Some (Some CtxErr, Suc i, s)
             else if mbEpochChanged client s then Some (Some ErrEpoch, Suc i, s)
             else
              (let now = wtNow (waits i); s = (if now \<noteq> 0 then mbHeartbeat client now s else s)
               in reply_retry client waits kind correlation payload has_more (Suc i) s)))"

section \<open>Replying\<close>

text \<open>
  The loop over the body. The result carries the fragments that the bus accepted, in order; they
  stand for what the loop did, the Go code keeps no such list.
\<close>

type_synonym 's reply_result = "(error option \<times> (byte list \<times> bool) list \<times> nat \<times> 's) option"

partial_function (option) reply_from ::
  "'s moduleBus \<Rightarrow> (nat \<Rightarrow> 's wait) \<Rightarrow> u32 \<Rightarrow> u64 \<Rightarrow> u32 \<Rightarrow> u64 \<Rightarrow> ModuleStatus \<Rightarrow> byte list \<Rightarrow> nat
   \<Rightarrow> bool \<Rightarrow> nat \<Rightarrow> nat \<Rightarrow> 's \<Rightarrow> 's reply_result" where
  "reply_from client waits kind correlation stageID traceID status body chunkCapacity first_round offset i s =
    (if \<not> (first_round \<or> offset < length body) then Some (None, [], i, s)
     else
      (let part = (if length body - offset > chunkCapacity then chunkCapacity else length body - offset);
           has_more = offset + part < length body;
           payload = replicate (ModuleMessageHeaderLen + part) 0;
           message = \<lparr>mOperation = ModuleOpResult, mStatus = status, mStageID = stageID, mFlags = 0,
                      mBodyLen = of_nat part, mDeadlineNS = 0, mTraceID = traceID\<rparr>
       in case ModuleMessage_Encode message payload of
            (Inl err, payload) \<Rightarrow> Some (Some err, [], i, s)
          | (Inr n, payload) \<Rightarrow>
             (let payload = put_at ModuleMessageHeaderLen (slice_at offset part body) payload
              in Option.bind (reply_retry client waits kind correlation payload has_more i s)
                 (\<lambda>(err, i, s).
                   case err of
                     Some err \<Rightarrow> Some (Some err, [], i, s)
                   | None \<Rightarrow> Option.bind
                      (reply_from client waits kind correlation stageID traceID status body
                         chunkCapacity False (offset + part) i s)
                      (\<lambda>(err, sent, i, s). Some (err, (payload, has_more) # sent, i, s))))))"

text \<open>The status and the body that are sent: a failed call has no body.\<close>

definition reply_outcome :: "ModuleStatus \<Rightarrow> byte list \<Rightarrow> ModuleStatus \<times> byte list" where
  "reply_outcome status body =
    (if \<not> validModuleStatus status \<or> length body > unat ModuleMessageMaxBody then (ModuleStatusInternal, [])
     else if status \<noteq> ModuleStatusOK then (status, [])
     else (status, body))"

definition replyModuleResult ::
  "'s moduleBus \<Rightarrow> (nat \<Rightarrow> 's wait) \<Rightarrow> u32 \<Rightarrow> u64 \<Rightarrow> u32 \<Rightarrow> u64 \<Rightarrow> ModuleStatus \<Rightarrow> byte list \<Rightarrow> nat \<Rightarrow> 's
   \<Rightarrow> 's reply_result" where
  "replyModuleResult client waits kind correlation stageID traceID status body i s =
    (case reply_outcome status body of
       (status, body) \<Rightarrow>
         let budget = mbInlineBudget client s
         in if budget \<le> of_nat ModuleMessageHeaderLen then Some (Some ErrModuleRuntime, [], i, s)
            else reply_from client waits kind correlation stageID traceID status body
                   (unat budget - ModuleMessageHeaderLen) True 0 i s)"

definition invalidModuleRequest ::
  "'s moduleBus \<Rightarrow> (nat \<Rightarrow> 's wait) \<Rightarrow> Event \<Rightarrow> u32 \<Rightarrow> u64 \<Rightarrow> nat \<Rightarrow> 's \<Rightarrow> 's reply_result" where
  "invalidModuleRequest client waits event stageID traceID i s =
    (let stageID = (if stageID = 0 then 1 else stageID)
     in replyModuleResult client waits (fEventKind (evFrame event)) (fCorrelationID (evFrame event))
          stageID traceID ModuleStatusInvalidRequest [] i s)"

section \<open>The reply as a list of fragments\<close>

definition result_message :: "u32 \<Rightarrow> u64 \<Rightarrow> ModuleStatus \<Rightarrow> byte list \<Rightarrow> ModuleMessage" where
  "result_message stageID traceID status p = \<lparr>mOperation = ModuleOpResult, mStatus = status, mStageID = stageID,
     mFlags = 0, mBodyLen = of_nat (length p), mDeadlineNS = 0, mTraceID = traceID\<rparr>"

definition result_payload :: "u32 \<Rightarrow> u64 \<Rightarrow> ModuleStatus \<Rightarrow> byte list \<Rightarrow> byte list" where
  "result_payload stageID traceID status p = message_header (result_message stageID traceID status p) @ p"

definition reply_frags :: "u32 \<Rightarrow> u32 \<Rightarrow> u64 \<Rightarrow> ModuleStatus \<Rightarrow> byte list \<Rightarrow> (byte list \<times> bool) list" where
  "reply_frags budget stageID traceID status body =
    map (\<lambda>(p, m). (result_payload stageID traceID status p, m))
      (frag_list (unat budget - ModuleMessageHeaderLen) body)"

lemma body_len_small:
  assumes "n \<le> unat ModuleMessageMaxBody"
  shows "unat (of_nat n :: u32) = n" and "(of_nat n :: u32) \<le> ModuleMessageMaxBody"
proof -
  show "unat (of_nat n :: u32) = n"
    using assms by (simp add: ModuleMessageMaxBody_def unat_of_nat)
  then show "(of_nat n :: u32) \<le> ModuleMessageMaxBody"
    using assms by (simp add: word_le_nat_alt)
qed

lemma result_message_valid:
  assumes "validModuleStatus status" and "stageID \<noteq> 0" and "length p \<le> unat ModuleMessageMaxBody"
  shows "message_valid (result_message stageID traceID status p)"
  using assms body_len_small(2) [OF assms(3)]
  by (simp add: message_valid_def result_message_def validModuleStatus_def ModuleOpInvoke_def ModuleOpResult_def)

lemma result_payload_decodes:
  assumes "validModuleStatus status" and "stageID \<noteq> 0" and "length p \<le> unat ModuleMessageMaxBody"
  shows "DecodeModuleMessage (result_payload stageID traceID status p) = Inr (result_message stageID traceID status p)"
  unfolding result_payload_def
  by (rule DecodeModuleMessage_header [OF result_message_valid [OF assms]])
    (simp add: result_message_def body_len_small(1) [OF assms(3)])

fun send_frags ::
  "'s moduleBus \<Rightarrow> (nat \<Rightarrow> 's wait) \<Rightarrow> u32 \<Rightarrow> u64 \<Rightarrow> (byte list \<times> bool) list \<Rightarrow> nat \<Rightarrow> 's \<Rightarrow> 's reply_result"
where
  "send_frags client waits kind corr [] i s = Some (None, [], i, s)"
| "send_frags client waits kind corr ((p, m) # frs) i s =
    Option.bind (reply_retry client waits kind corr p m i s)
      (\<lambda>(err, i, s). case err of
         Some err \<Rightarrow> Some (Some err, [], i, s)
       | None \<Rightarrow> Option.bind (send_frags client waits kind corr frs i s)
           (\<lambda>(err, sent, i, s). Some (err, (p, m) # sent, i, s)))"

lemma reply_from_frags:
  assumes "0 < n" and "validModuleStatus status" and "stageID \<noteq> 0"
    and "length body \<le> unat ModuleMessageMaxBody" and "offset \<le> length body"
    and "first_round \<or> offset < length body"
  shows "reply_from client waits kind corr stageID traceID status body n first_round offset i s
    = send_frags client waits kind corr
        (map (\<lambda>(p, m). (result_payload stageID traceID status p, m)) (frag_list n (drop offset body))) i s"
  using assms(5,6)
proof (induction "length body - offset" arbitrary: offset first_round i s rule: less_induct)
  case less
  define part where "part = (if length body - offset > n then n else length body - offset)"
  let ?p = "slice_at offset part body"
  have part: "length ?p = part" "part \<le> unat ModuleMessageMaxBody" "offset + part \<le> length body"
    using less.prems assms(4) by (auto simp: part_def slice_at_def)
  have msg: "\<lparr>mOperation = ModuleOpResult, mStatus = status, mStageID = stageID, mFlags = 0,
      mBodyLen = of_nat part, mDeadlineNS = 0, mTraceID = traceID\<rparr> = result_message stageID traceID status ?p"
    by (simp add: result_message_def part)
  have valid: "message_valid (result_message stageID traceID status ?p)"
    using assms(2,3) part by (intro result_message_valid) simp_all
  have enc: "ModuleMessage_Encode (result_message stageID traceID status ?p)
      (replicate (ModuleMessageHeaderLen + part) 0)
    = (Inr ModuleMessageHeaderLen, message_header (result_message stageID traceID status ?p) @ replicate part 0)"
    using valid by (simp add: ModuleMessage_Encode_eq)
  have payload: "put_at ModuleMessageHeaderLen ?p
      (message_header (result_message stageID traceID status ?p) @ replicate part 0)
    = result_payload stageID traceID status ?p"
    using part by (simp add: put_at_skip put_at_front result_payload_def)
  have unfolded: "reply_from client waits kind corr stageID traceID status body n first_round offset i s =
    Option.bind (reply_retry client waits kind corr (result_payload stageID traceID status ?p)
        (offset + part < length body) i s)
      (\<lambda>(err, i, s). case err of
         Some err \<Rightarrow> Some (Some err, [], i, s)
       | None \<Rightarrow> Option.bind
          (reply_from client waits kind corr stageID traceID status body n False (offset + part) i s)
          (\<lambda>(err, sent, i, s). Some (err, (result_payload stageID traceID status ?p,
               offset + part < length body) # sent, i, s)))"
    using less.prems by (subst reply_from.simps)
      (simp only: part_def [symmetric] Let_def msg enc payload prod.case sum.case simp_thms if_False)
  show ?case
  proof (cases "length body - offset > n")
    case True
    then have p: "?p = take n (drop offset body)" "offset + part < length body" "part = n"
      by (simp_all add: part_def slice_at_def less_diff_conv add.commute)
    have rest: "reply_from client waits kind corr stageID traceID status body n False (offset + part) i s
      = send_frags client waits kind corr (map (\<lambda>(p, m). (result_payload stageID traceID status p, m))
          (frag_list n (drop (offset + part) body))) i s" for i s
      using True p assms(1) by (intro less.hyps) simp_all
    have "frag_list n (drop offset body) = (?p, True) # frag_list n (drop (offset + part) body)"
      using True assms(1) p by (subst frag_list.simps) (simp add: add.commute)
    then show ?thesis
      unfolding unfolded rest using p(2) by (simp cong: option.case_cong)
  next
    case False
    then have p: "?p = drop offset body" "offset + part = length body"
      using less.prems by (simp_all add: part_def slice_at_def)
    have "frag_list n (drop offset body) = [(?p, False)]"
      using False p by (subst frag_list.simps) simp
    moreover have "reply_from client waits kind corr stageID traceID status body n False (length body) i s
        = Some (None, [], i, s)" for i s
      by (subst reply_from.simps) simp
    ultimately show ?thesis unfolding unfolded p(2) by (simp cong: option.case_cong)
  qed
qed

lemma reply_outcome_ok:
  assumes "reply_outcome status body = (st, b)"
  shows "validModuleStatus st" and "length b \<le> unat ModuleMessageMaxBody"
  using assms by (auto simp: reply_outcome_def validModuleStatus_def go_const split: if_splits)

lemma replyModuleResult_frags:
  assumes "stageID \<noteq> 0" and "reply_outcome status body = (st, b)"
    and "ModuleMessageHeaderLen < unat (mbInlineBudget client s)"
  shows "replyModuleResult client waits kind corr stageID traceID status body i s
    = send_frags client waits kind corr (reply_frags (mbInlineBudget client s) stageID traceID st b) i s"
proof -
  have "\<not> mbInlineBudget client s \<le> of_nat ModuleMessageHeaderLen"
    using assms(3) by (simp add: word_le_nat_alt ModuleMessageHeaderLen_def)
  then show ?thesis
    using reply_from_frags [OF _ reply_outcome_ok(1) [OF assms(2)] assms(1) reply_outcome_ok(2) [OF assms(2)],
        of "unat (mbInlineBudget client s) - ModuleMessageHeaderLen" 0 True] assms(3)
    by (simp add: replyModuleResult_def assms(2) Let_def reply_frags_def)
qed

section \<open>The loops end with the context\<close>

lemma reply_retry_ends:
  assumes "i \<le> n" and "wtCtxDone (waits n)"
  shows "\<exists>err i' s'. reply_retry client waits kind corr p m i s = Some (err, i', s')
     \<and> i' \<le> Suc n \<and> (i' = Suc n \<longrightarrow> err = Some CtxErr)"
  using assms(1)
proof (induction arbitrary: s rule: inc_induct)
  case base
  show ?case
    using assms(2) by (subst reply_retry.simps) (auto simp: Let_def split: prod.split option.split)
next
  case (step k)
  show ?case
  proof (cases "mbReplyFragment client kind corr p m s")
    case (Pair e s1)
    let ?s = "wtHost (waits k) s1"
    let ?s' = "if wtNow (waits k) \<noteq> 0 then mbHeartbeat client (wtNow (waits k)) ?s else ?s"
    show ?thesis
      using step.IH [of ?s'] step.hyps Pair
      by (subst reply_retry.simps) (auto simp: Let_def split: option.split)
  qed
qed

lemma send_frags_ends:
  assumes "i \<le> n" and "wtCtxDone (waits n)"
  shows "\<exists>err sent i' s'. send_frags client waits kind corr frs i s = Some (err, sent, i', s')
     \<and> i' \<le> Suc n \<and> (i' = Suc n \<longrightarrow> err = Some CtxErr)"
  using assms(1)
proof (induction frs arbitrary: i s)
  case (Cons f frs)
  obtain p m where f: "f = (p, m)" by fastforce
  obtain err i' s' where run: "reply_retry client waits kind corr p m i s = Some (err, i', s')"
    "i' \<le> Suc n" "i' = Suc n \<longrightarrow> err = Some CtxErr"
    using reply_retry_ends [OF Cons.prems, of waits client kind corr p m s] assms(2) by blast
  show ?case
  proof (cases err)
    case None
    then have "i' \<le> n" using run(2,3) by (cases "i' = Suc n") auto
    then show ?thesis using Cons.IH [of i' s'] run None by (auto simp: f)
  qed (use run in \<open>auto simp: f\<close>)
qed simp

lemma send_frags_prefix:
  "send_frags client waits kind corr frs i s = Some (err, sent, i', s') \<Longrightarrow>
     \<exists>rest. frs = sent @ rest \<and> (err = None \<longleftrightarrow> rest = [])"
proof (induction frs arbitrary: i s sent)
  case (Cons f frs)
  obtain p m where f: "f = (p, m)" by fastforce
  from Cons show ?case
    by (auto simp: f bind_eq_Some_conv split: option.splits)
qed simp

lemma replyModuleResult_ends:
  assumes "i \<le> n" and "wtCtxDone (waits n)" and "stageID \<noteq> 0"
  shows "\<exists>err sent i' s'.
     replyModuleResult client waits kind corr stageID traceID status body i s = Some (err, sent, i', s')
     \<and> i' \<le> Suc n \<and> (i' = Suc n \<longrightarrow> err = Some CtxErr)"
proof (cases "ModuleMessageHeaderLen < unat (mbInlineBudget client s)")
  case True
  obtain st b where "reply_outcome status body = (st, b)" by fastforce
  from replyModuleResult_frags [OF assms(3) this True] send_frags_ends [of i n waits, OF assms(1,2)]
  show ?thesis by metis
next
  case False
  then have "mbInlineBudget client s \<le> of_nat ModuleMessageHeaderLen"
    by (simp add: word_le_nat_alt ModuleMessageHeaderLen_def)
  then show ?thesis using assms(1) by (simp add: replyModuleResult_def Let_def split: prod.split)
qed

section \<open>The calls a reply makes\<close>

text \<open>A bus that notes, in order, the fragments it has accepted beside the state of the bus it stands for.\<close>

type_synonym fragment_call = "u32 \<times> u64 \<times> byte list \<times> bool"

definition recorded :: "'s moduleBus \<Rightarrow> ('s \<times> fragment_call list) moduleBus" where
  "recorded client = \<lparr>
     mbPoll = (\<lambda>(s, calls). case mbPoll client s of (r, s') \<Rightarrow> (r, (s', calls))),
     mbReplyFragment = (\<lambda>kind corr p has_more (s, calls).
       case mbReplyFragment client kind corr p has_more s of
         (e, s') \<Rightarrow> (e, (s', if e = None then calls @ [(kind, corr, p, has_more)] else calls))),
     mbHeartbeat = (\<lambda>now (s, calls). (mbHeartbeat client now s, calls)),
     mbEpochChanged = (\<lambda>(s, _). mbEpochChanged client s),
     mbInlineBudget = (\<lambda>(s, _). mbInlineBudget client s)\<rparr>"

lemma recorded_budget [simp]: "mbInlineBudget (recorded client) (s, calls) = mbInlineBudget client s"
  by (simp add: recorded_def)

lemma reply_retry_recorded:
  "reply_retry bus waits kind corr p m i s = Some r \<Longrightarrow> bus = recorded client \<Longrightarrow>
   \<forall>n x. snd (wtHost (waits n) x) = snd x \<Longrightarrow>
   snd (snd (snd r)) = snd s @ (if fst r = None then [(kind, corr, p, m)] else [])"
proof (induction rule: reply_retry.raw_induct [rotated, consumes 1])
  case (1 rec bus waits kind corr p m i s r)
  obtain e s1 where one: "mbReplyFragment client kind corr p m (fst s) = (e, s1)" by fastforce
  have frag: "mbReplyFragment bus kind corr p m s
      = (e, (s1, if e = None then snd s @ [(kind, corr, p, m)] else snd s))"
    using one by (cases s) (simp add: 1(3) recorded_def)
  show ?case
  proof (cases e)
    case None
    then show ?thesis using 1(2) frag by auto
  next
    case (Some x)
    define h where "h = wtHost (waits i) (s1, snd s)"
    define b where "b = (if wtNow (waits i) \<noteq> 0 then mbHeartbeat bus (wtNow (waits i)) h else h)"
    have h: "snd h = snd s" using 1(4) by (simp add: h_def)
    have b: "snd b = snd s" using h by (cases h) (simp add: b_def 1(3) recorded_def)
    consider "fst r \<noteq> None" "snd (snd (snd r)) = snd s" | "fst r \<noteq> None" "snd (snd r) = h"
      | "rec bus waits kind corr p m (Suc i) b = Some r"
      using 1(2) by (auto simp: frag Some Let_def h_def b_def split: if_splits)
    then show ?thesis
    proof cases
      case 1
      then show ?thesis by auto
    next
      case 2
      then show ?thesis using h by auto
    next
      case 3
      from 1(1) [OF this 1(3,4)] show ?thesis using b by simp
    qed
  qed
qed

lemma send_frags_recorded:
  assumes "send_frags (recorded client) waits kind corr frs i s = Some (err, sent, i', s')"
    and "\<forall>n x. snd (wtHost (waits n) x) = snd x"
  shows "snd s' = snd s @ map (\<lambda>(p, m). (kind, corr, p, m)) sent"
  using assms(1)
proof (induction frs arbitrary: i s sent)
  case (Cons f frs)
  obtain p m where f: "f = (p, m)" by fastforce
  obtain e i1 s1 where run: "reply_retry (recorded client) waits kind corr p m i s = Some (e, i1, s1)"
    using Cons.prems by (auto simp: f bind_eq_Some_conv)
  note one = reply_retry_recorded [OF run refl assms(2)]
  show ?case
  proof (cases e)
    case (Some x)
    then show ?thesis using Cons.prems run one by (auto simp: f)
  next
    case None
    then obtain sent' where "send_frags (recorded client) waits kind corr frs i1 s1 = Some (err, sent', i', s')"
      "sent = (p, m) # sent'"
      using Cons.prems run by (auto simp: f bind_eq_Some_conv)
    then show ?thesis using Cons.IH one None by auto
  qed
qed simp

section \<open>The stream a reply leaves behind\<close>

locale reply_bus =
  outbound_stream "mbReplyFragment client" ok stream "mbInlineBudget client" image same
  for client :: "'s moduleBus" and ok :: "'s \<Rightarrow> bool" and stream :: "'s \<Rightarrow> 'e list"
    and image :: "'s \<Rightarrow> u32 \<Rightarrow> u64 \<Rightarrow> byte list \<Rightarrow> bool \<Rightarrow> 'e" and same :: "'s \<Rightarrow> 's \<Rightarrow> bool" +
  assumes heartbeat_quiet: "ok s \<Longrightarrow> ok (mbHeartbeat client now s)
      \<and> stream (mbHeartbeat client now s) = stream s \<and> same s (mbHeartbeat client now s)"
begin

lemma reply_retry_any:
  "reply_retry c waits kind corr p m i s = Some r \<Longrightarrow> c = client \<Longrightarrow> \<forall>n. host_reads (wtHost (waits n)) \<Longrightarrow> ok s
   \<Longrightarrow> ok (snd (snd r)) \<and> same s (snd (snd r))
     \<and> (\<exists>k. stream (snd (snd r)) = drop k (stream s) @ (if fst r = None then [image s kind corr p m] else []))"
proof (induction rule: reply_retry.raw_induct [rotated, consumes 1])
  case (1 rec c waits kind corr p m i s r)
  obtain e s1 where one: "mbReplyFragment c kind corr p m s = (e, s1)" by fastforce
  show ?case
  proof (cases e)
    case None
    then show ?thesis
      using 1(2-) one accepted [of s kind corr p m s1] by (auto intro!: exI [of _ 0])
  next
    case (Some x)
    then have s1: "s1 = s" using 1(3,5) one refused [of s kind corr p m x s1] by simp
    define h where "h = wtHost (waits i) s"
    have h: "ok h" "same s h" "\<exists>k. stream h = drop k (stream s)"
      using 1(4,5) by (auto simp: h_def host_reads_def)
    define b where "b = (if wtNow (waits i) \<noteq> 0 then mbHeartbeat c (wtNow (waits i)) h else h)"
    have b: "ok b" "same h b" "stream b = stream h"
      using heartbeat_quiet [OF h(1)] h(1) same_refl 1(3) by (simp_all add: b_def)
    consider "fst r \<noteq> None \<and> snd (snd r) = s" | "fst r \<noteq> None \<and> snd (snd r) = h"
      | "rec c waits kind corr p m (Suc i) b = Some r"
      using 1(2) by (auto simp: one Some s1 Let_def h_def b_def split: if_splits)
    then show ?thesis
    proof cases
      case 1
      then show ?thesis using \<open>ok s\<close> same_refl by (auto intro!: exI [of _ 0])
    next
      case 2
      then show ?thesis using h by auto
    next
      case 3
      obtain k where k: "stream h = drop k (stream s)" using h(3) by blast
      have sb: "same s b" using same_trans [OF h(2) b(2)] .
      from 1(1) [OF 3 1(3,4) b(1)] obtain k' where
        "ok (snd (snd r))" "same b (snd (snd r))"
        "stream (snd (snd r)) = drop k' (stream b) @ (if fst r = None then [image b kind corr p m] else [])"
        by blast
      then show ?thesis
        using same_trans [OF sb] same_image [OF sb] b(3) k by (auto simp: drop_drop)
    qed
  qed
qed

lemma reply_retry_stream:
  assumes "reply_retry client waits kind corr p m i s = Some (err, i', s')"
    and "ok s" and "\<And>n. host_reads (wtHost (waits n))"
  shows "ok s' \<and> same s s'
     \<and> (\<exists>k. stream s' = drop k (stream s) @ (if err = None then [image s kind corr p m] else []))"
  using reply_retry_any [OF assms(1) refl _ assms(2)] assms(3) by simp

lemma send_frags_stream:
  assumes "send_frags client waits kind corr frs i s = Some (err, sent, i', s')"
    and "ok s" and "\<And>n. host_reads (wtHost (waits n))"
  shows "ok s' \<and> same s s'
     \<and> (\<exists>k. stream s' = drop k (stream s @ map (\<lambda>(p, m). image s kind corr p m) sent))"
  using assms(1,2)
proof (induction frs arbitrary: i s sent)
  case Nil
  then show ?case using same_refl by (auto intro: exI [of _ 0])
next
  case (Cons f frs)
  obtain p m where f: "f = (p, m)" by fastforce
  obtain e i1 s1 where run: "reply_retry client waits kind corr p m i s = Some (e, i1, s1)"
    using Cons.prems(1) by (auto simp: f bind_eq_Some_conv)
  note one = reply_retry_stream [OF run Cons.prems(2) assms(3)]
  show ?case
  proof (cases e)
    case (Some x)
    then have "sent = []" "s' = s1" using Cons.prems(1) run by (auto simp: f)
    then show ?thesis using one Some by auto
  next
    case None
    then obtain sent' where rest: "send_frags client waits kind corr frs i1 s1 = Some (err, sent', i', s')"
      "sent = (p, m) # sent'"
      using Cons.prems(1) run by (auto simp: f bind_eq_Some_conv)
    obtain k where k: "stream s1 = drop k (stream s) @ [image s kind corr p m]"
      using one None by auto
    obtain k' where k': "ok s'" "same s1 s'"
      "stream s' = drop k' (stream s1 @ map (\<lambda>(p, m). image s1 kind corr p m) sent')"
      using Cons.IH [OF rest(1)] one by blast
    have same1: "same s s1" using one by simp
    let ?img = "map (\<lambda>(p, m). image s kind corr p m)"
    let ?j = "min k (length (stream s))"
    have "stream s1 @ map (\<lambda>(p, m). image s1 kind corr p m) sent' = drop ?j (stream s @ ?img sent)"
      using k by (cases "k \<le> length (stream s)") (simp_all add: rest(2) same_image [OF same1])
    then have "stream s' = drop (k' + ?j) (stream s @ ?img sent)"
      using k'(3) by (simp only: drop_drop)
    then show ?thesis using k'(1) same_trans [OF same1 k'(2)] by blast
  qed
qed

end

interpretation client_reply: reply_bus client_module_bus "\<lambda>(c, m). client_ok c m" client_stream
  "fragment_event FReply" same_client
proof (intro reply_bus.intro client_replies.outbound_stream_axioms reply_bus_axioms.intro)
  fix s :: client_state and now
  show "(case mbHeartbeat client_module_bus now s of (c, m) \<Rightarrow> client_ok c m)
      \<and> client_stream (mbHeartbeat client_module_bus now s) = client_stream s
      \<and> same_client s (mbHeartbeat client_module_bus now s)"
    if "case s of (c, m) \<Rightarrow> client_ok c m"
    using that by (cases s) (simp add: client_module_bus_def client_beat_frame client_stream_def same_client_def)
qed

section \<open>Properties\<close>

lemma reply_frags_facts:
  assumes "stageID \<noteq> 0" and "ModuleMessageHeaderLen < unat budget"
    and "validModuleStatus st" and "length b \<le> unat ModuleMessageMaxBody"
    and "frs = reply_frags budget stageID traceID st b"
  shows "concat (map (\<lambda>(p, _). drop ModuleMessageHeaderLen p) frs) = b"
    and "\<exists>n. map snd frs = replicate n True @ [False]"
    and "\<forall>(p, has_more)\<in>set frs. length p \<le> unat budget \<and> (has_more \<longrightarrow> length p = unat budget)
       \<and> (b \<noteq> [] \<longrightarrow> ModuleMessageHeaderLen < length p)
       \<and> DecodeModuleMessage p = Inr (result_message stageID traceID st (drop ModuleMessageHeaderLen p))"
proof -
  let ?n = "unat budget - ModuleMessageHeaderLen"
  have drops: "drop ModuleMessageHeaderLen (result_payload stageID traceID st q) = q" for q
    by (simp add: result_payload_def)
  have "map (\<lambda>(p, _). drop ModuleMessageHeaderLen p) frs = map fst (frag_list ?n b)"
    by (auto simp: assms(5) reply_frags_def drops)
  then show "concat (map (\<lambda>(p, _). drop ModuleMessageHeaderLen p) frs) = b"
    by (simp only: frag_list_join)
  have "length p \<le> unat budget \<and> (m \<longrightarrow> length p = unat budget) \<and> (b \<noteq> [] \<longrightarrow> ModuleMessageHeaderLen < length p)
      \<and> DecodeModuleMessage p = Inr (result_message stageID traceID st (drop ModuleMessageHeaderLen p))"
    if frag: "(p, m) \<in> set frs" for p m
  proof -
    obtain q where q: "(q, m) \<in> set (frag_list ?n b)" "p = result_payload stageID traceID st q"
      using frag by (auto simp: assms(5) reply_frags_def)
    have "q \<in> set (map fst (frag_list ?n b))" using q(1) by force
    then have "length q \<le> length (concat (map fst (frag_list ?n b)))"
      unfolding length_concat by (intro member_le_sum_list) auto
    then have "length q \<le> unat ModuleMessageMaxBody" using assms(4) by (simp only: frag_list_join)
    then have "DecodeModuleMessage p = Inr (result_message stageID traceID st q)"
      using result_payload_decodes [OF assms(3,1)] by (simp add: q(2))
    moreover have "length q \<le> ?n \<and> (m \<longrightarrow> length q = ?n)"
      using frag_list_parts [OF _ q(1)] assms(2) by simp
    moreover have "b \<noteq> [] \<longrightarrow> q \<noteq> []" using frag_list_nonempty q(1) by blast
    ultimately show ?thesis using assms(2) by (auto simp: q(2) drops) (auto simp: result_payload_def)
  qed
  then show "\<forall>(p, has_more)\<in>set frs. length p \<le> unat budget \<and> (has_more \<longrightarrow> length p = unat budget)
       \<and> (b \<noteq> [] \<longrightarrow> ModuleMessageHeaderLen < length p)
       \<and> DecodeModuleMessage p = Inr (result_message stageID traceID st (drop ModuleMessageHeaderLen p))"
    by blast
  obtain ys p where "frag_list ?n b = ys @ [(p, False)]" "\<forall>y\<in>set ys. snd y"
    using frag_list_flags by blast
  then have "map snd frs = replicate (length ys) True @ [False]"
    by (auto simp: assms(5) reply_frags_def intro!: nth_equalityI)
      (auto simp: nth_append case_prod_beta)
  then show "\<exists>n. map snd frs = replicate n True @ [False]" by blast
qed

text \<open>C23: What \<open>replyModuleResult\<close> sends, over any bus. A status out of range and a body of more than 16 MiB
  become an internal error, and only a success has a body. The fragments the bus accepts are a prefix of
  the following list, all of it exactly when no error is returned: its payloads fit the inline budget,
  all but the last fill it and announce another one, none is empty when there is a body; each decodes to
  a result message with the status, the stage and the trace of the call, and the bytes behind their
  envelopes put together are the body. All carry the kind and the correlation of the request.\<close>

theorem reply_fragments:
  assumes "stageID \<noteq> 0" and "ModuleMessageHeaderLen < unat (mbInlineBudget client s)"
    and "\<forall>n x. snd (wtHost (waits n) x) = snd x"
    and "replyModuleResult (recorded client) waits kind corr stageID traceID status body i (s, [])
       = Some (err, sent, i', (s', calls))"
  defines "st \<equiv> if status > ModuleStatusInternal \<or> length body > unat ModuleMessageMaxBody
       then ModuleStatusInternal else status"
  defines "b \<equiv> if st = ModuleStatusOK then body else []"
  shows "\<exists>frs rest. map (\<lambda>(p, has_more). (kind, corr, p, has_more)) frs = calls @ rest \<and> (err = None \<longleftrightarrow> rest = [])
     \<and> concat (map (\<lambda>(p, _). drop ModuleMessageHeaderLen p) frs) = b
     \<and> (\<exists>n. map snd frs = replicate n True @ [False])
     \<and> (\<forall>(p, has_more)\<in>set frs. length p \<le> unat (mbInlineBudget client s)
          \<and> (has_more \<longrightarrow> length p = unat (mbInlineBudget client s))
          \<and> (b \<noteq> [] \<longrightarrow> ModuleMessageHeaderLen < length p)
          \<and> DecodeModuleMessage p = Inr \<lparr>mOperation = ModuleOpResult, mStatus = st, mStageID = stageID, mFlags = 0,
               mBodyLen = of_nat (length p - ModuleMessageHeaderLen), mDeadlineNS = 0, mTraceID = traceID\<rparr>)"
proof -
  let ?frs = "reply_frags (mbInlineBudget client s) stageID traceID st b"
  have out: "reply_outcome status body = (st, b)"
    by (auto simp: reply_outcome_def validModuleStatus_def st_def b_def go_const)
  have run: "send_frags (recorded client) waits kind corr ?frs i (s, []) = Some (err, sent, i', (s', calls))"
    using assms(2,4) replyModuleResult_frags [OF assms(1) out, of "recorded client" "(s, [])"] by simp
  obtain rest where rest: "?frs = sent @ rest" "err = None \<longleftrightarrow> rest = []" using send_frags_prefix [OF run] by blast
  have "calls = map (\<lambda>(p, m). (kind, corr, p, m)) sent" using send_frags_recorded [OF run assms(3)] by simp
  then have "map (\<lambda>(p, m). (kind, corr, p, m)) ?frs = calls @ map (\<lambda>(p, m). (kind, corr, p, m)) rest"
    by (simp add: rest(1))
  with rest(2) reply_frags_facts [OF assms(1,2) reply_outcome_ok [OF out] refl, of traceID] show ?thesis
    by (intro exI [of _ ?frs] exI [of _ "map (\<lambda>(p, m). (kind, corr, p, m)) rest"]) (simp add: result_message_def)
qed

text \<open>C12: A reply on a real client, with the host reading the outbound ring meanwhile. The fragments
  accepted are a prefix of those of the reply, all of them exactly when no error is returned; the
  host finds them in order behind what was there before, nothing lost, repeated or reordered, and the
  client stays in its invariant.\<close>

theorem reply_delivers:
  assumes "client_ok c m" and "stageID \<noteq> 0" and "ModuleMessageHeaderLen < unat (cInlineBudget c)"
    and "\<forall>n. client_replies.host_reads (wtHost (waits n))"
    and "reply_outcome status body = (st, b)"
    and "replyModuleResult client_module_bus waits kind corr stageID traceID status body i (c, m)
       = Some (err, sent, i', (c', m'))"
  shows "c' = c \<and> client_ok c m'
     \<and> (\<exists>rest. reply_frags (cInlineBudget c) stageID traceID st b = sent @ rest \<and> (err = None \<longleftrightarrow> rest = []))
     \<and> (\<exists>k. client_stream (c, m') = drop k (client_stream (c, m)
           @ map (\<lambda>(p, has_more). fragment_event FReply (c, m) kind corr p has_more) sent))"
proof -
  have budget: "mbInlineBudget client_module_bus (c, m) = cInlineBudget c"
    by (simp add: client_module_bus_def moduleInlineBudget_def)
  have run: "send_frags client_module_bus waits kind corr (reply_frags (cInlineBudget c) stageID traceID st b) i (c, m)
      = Some (err, sent, i', (c', m'))"
    using assms(3,6) replyModuleResult_frags [OF assms(2,5), of client_module_bus "(c, m)"]
    by (simp add: budget)
  have "case (c, m) of (c, m) \<Rightarrow> client_ok c m" using assms(1) by simp
  from client_reply.send_frags_stream [OF run this] assms(4) send_frags_prefix [OF run]
  show ?thesis by (auto simp: same_client_def)
qed

text \<open>C29: A reply never hangs past its context. Whatever the bus answers, if the context is done at wait
  \<open>n\<close> the reply returns, no wait comes after that one, and if it was reached the error is that of the
  context; so the reply gives up at the first wait at which the context is done.\<close>

theorem reply_terminates:
  assumes "i \<le> n" and "wtCtxDone (waits n)" and "stageID \<noteq> 0"
  shows "\<exists>err sent i' s'.
     replyModuleResult client waits kind corr stageID traceID status body i s = Some (err, sent, i', s')
     \<and> i' \<le> Suc n \<and> (i' = Suc n \<longrightarrow> err = Some CtxErr)"
  using assms by (rule replyModuleResult_ends [of i n waits])

text \<open>A bus whose ring is always full, and a context that ends at the fourth wait.\<close>

definition full_bus :: "unit moduleBus" where
  "full_bus = \<lparr>mbPoll = (\<lambda>s. (PollNone, s)), mbReplyFragment = (\<lambda>_ _ _ _ s. (Some ErrWouldBlock, s)),
     mbHeartbeat = (\<lambda>_ s. s), mbEpochChanged = (\<lambda>_. False), mbInlineBudget = (\<lambda>_. 100)\<rparr>"

definition short_waits :: "nat \<Rightarrow> 's wait" where
  "short_waits n = \<lparr>wtHost = (\<lambda>s. s), wtCtxDone = n = 3, wtNow = 5\<rparr>"

lemma reply_terminates_witness:
  "\<exists>err sent i' s'. replyModuleResult full_bus short_waits 6401 9 1 7 ModuleStatusOK [1, 2] 0 () = Some (err, sent, i', s')
     \<and> i' \<le> 4 \<and> (i' = 4 \<longrightarrow> err = Some CtxErr)"
  using reply_terminates [of 0 3 "short_waits :: nat \<Rightarrow> unit wait" 1 full_bus 6401 9 7 ModuleStatusOK "[1, 2]" "()"]
  by (simp add: short_waits_def)

text \<open>A bus that takes every fragment, with room for two bytes behind the envelope.\<close>

definition narrow_bus :: "unit moduleBus" where
  "narrow_bus = full_bus\<lparr>mbReplyFragment := (\<lambda>_ _ _ _ s. (None, s)), mbInlineBudget := (\<lambda>_. 42)\<rparr>"

lemma reply_fragments_witness:
  "\<exists>sent i' calls. replyModuleResult (recorded narrow_bus) short_waits 6401 9 1 7 ModuleStatusOK [1, 2, 3, 4, 5] 0 ((), [])
       = Some (None, sent, i', ((), calls))
     \<and> concat (map (\<lambda>(_, _, p, _). drop ModuleMessageHeaderLen p) calls) = [1, 2, 3, 4, 5]"
proof -
  obtain err sent i' calls where run: "replyModuleResult (recorded narrow_bus) short_waits 6401 9 1 7 ModuleStatusOK
      [1, 2, 3, 4, 5] 0 ((), []) = Some (err, sent, i', ((), calls))"
    using replyModuleResult_ends [of 0 3 short_waits 1 "recorded narrow_bus" 6401 9 7 ModuleStatusOK "[1, 2, 3, 4, 5]" "((), [])"]
    by (auto simp: short_waits_def)
  have budget: "mbInlineBudget narrow_bus () = 42" by (simp add: narrow_bus_def)
  have "mbReplyFragment (recorded narrow_bus) k c p m s = (None, (), snd s @ [(k, c, p, m)])" for k c p m s
    by (cases s) (simp add: recorded_def narrow_bus_def)
  then have retry: "reply_retry (recorded narrow_bus) waits k c p m n s = Some (None, n, (), snd s @ [(k, c, p, m)])"
    for waits k c p m n s by (subst reply_retry.simps) simp
  have accepts: "\<exists>s'. send_frags (recorded narrow_bus) waits k c frs n s = Some (None, frs, n, s')" for waits k c frs n s
  proof (induction frs arbitrary: s)
    case Nil
    then show ?case by (cases s) simp
  next
    case (Cons f frs)
    obtain s' where "send_frags (recorded narrow_bus) waits k c frs n ((), snd s @ [(k, c, f)]) = Some (None, frs, n, s')"
      using Cons by blast
    then show ?case by (cases f, cases s') (simp add: retry)
  qed
  have out: "reply_outcome ModuleStatusOK [1, 2, 3, 4, 5] = (ModuleStatusOK, [1, 2, 3, 4, 5])"
    by (simp add: reply_outcome_def validModuleStatus_def go_const)
  have "send_frags (recorded narrow_bus) short_waits 6401 9 (reply_frags 42 1 7 ModuleStatusOK [1, 2, 3, 4, 5]) 0 ((), [])
      = Some (err, sent, i', ((), calls))"
    using run replyModuleResult_frags [OF _ out, of 1 "recorded narrow_bus" "((), [])" short_waits 6401 9 7 0]
    by (simp add: budget ModuleMessageHeaderLen_def)
  then have err: "err = None"
    using accepts [of short_waits 6401 9 "reply_frags 42 1 7 ModuleStatusOK [1, 2, 3, 4, 5]" 0 "((), [])"] by auto
  have quiet: "\<forall>n x. snd (wtHost (short_waits n) x) = snd x" by (simp add: short_waits_def)
  have wide: "ModuleMessageHeaderLen < unat (mbInlineBudget narrow_bus ())"
    by (simp add: budget ModuleMessageHeaderLen_def)
  have st: "(if ModuleStatusInternal < ModuleStatusOK \<or> unat ModuleMessageMaxBody < length [1, 2, 3, 4, 5 :: byte]
      then ModuleStatusInternal else ModuleStatusOK) = ModuleStatusOK" by (simp add: go_const)
  obtain frs rest where "map (\<lambda>(p, has_more). (6401, 9, p, has_more)) frs = calls @ rest" "err = None \<longleftrightarrow> rest = []"
    "concat (map (\<lambda>(p, _). drop ModuleMessageHeaderLen p) frs) = (if ModuleStatusOK = ModuleStatusOK then [1, 2, 3, 4, 5] else [])"
    using reply_fragments [OF one_neq_zero wide quiet run, unfolded st] by blast
  then have frs: "map (\<lambda>(p, has_more). (6401, 9, p, has_more)) frs = calls"
    "concat (map (\<lambda>(p, _). drop ModuleMessageHeaderLen p) frs) = [1, 2, 3, 4, 5]"
    by (simp_all add: err)
  have "map (\<lambda>(_, _, p, _). drop ModuleMessageHeaderLen p) calls = map (\<lambda>(p, _). drop ModuleMessageHeaderLen p) frs"
    by (simp add: frs(1) [symmetric] comp_def case_prod_beta)
  then show ?thesis using run err frs(2) by auto
qed

lemma reply_delivers_witness:
  "\<exists>err sent i' m'. replyModuleResult client_module_bus short_waits 6401 9 1 7 ModuleStatusOK [1, 2] 0
        (sample_client, sample_bus) = Some (err, sent, i', (sample_client, m'))
     \<and> client_ok sample_client m'"
proof -
  have "wtCtxDone (short_waits 3 :: client_state wait)" by (simp add: short_waits_def)
  with replyModuleResult_ends [of 0 3 "short_waits :: nat \<Rightarrow> client_state wait" 1 client_module_bus 6401 9 7 ModuleStatusOK
      "[1, 2]" "(sample_client, sample_bus)"]
  obtain err sent i' c' m' where run: "replyModuleResult client_module_bus short_waits 6401 9 1 7 ModuleStatusOK [1, 2] 0
        (sample_client, sample_bus) = Some (err, sent, i', (c', m'))"
    by (metis surj_pair zero_le one_neq_zero)
  have out: "reply_outcome ModuleStatusOK [1, 2] = (ModuleStatusOK, [1, 2])"
    by (simp add: reply_outcome_def validModuleStatus_def go_const)
  have host: "\<forall>n. client_replies.host_reads (wtHost (short_waits n))"
    unfolding client_replies.host_reads_def by (auto simp: short_waits_def same_client_def intro: exI [of _ 0])
  have budget: "ModuleMessageHeaderLen < unat (cInlineBudget sample_client)"
    by (simp add: sample_client_def ModuleMessageHeaderLen_def)
  from reply_delivers [OF sample_client_ok(1) _ budget host out run] run show ?thesis by auto
qed

end
