(* ===== verification/Serve.thy ===== *)
theory Serve
  imports Reply "HOL-Library.AList"
begin

text \<open>
  The serving runtime, \<open>validateModuleConfig\<close>, \<open>runHandler\<close>, \<open>finishModuleWork\<close>, \<open>runModuleClient\<close>
  and \<open>RunModuleProcess\<close> of \<open>server-go/bus/module_runtime.go\<close>. The main loop owns two tables,
  requests being assembled and jobs in flight; each job runs in a goroutine of its own that posts its
  result to a channel of sixteen places. The two maps are association lists, the channel is the list
  of what it holds, and the goroutines are the list of those that have not posted yet.
\<close>

unbundle bit_operations_syntax

section \<open>Configuration\<close>

definition moduleMaxInFlight :: nat where [go_const]: "moduleMaxInFlight = 16"

fun stage_table :: "ModuleStage list \<Rightarrow> (u32 \<rightharpoonup> u32) \<Rightarrow> error + (u32 \<rightharpoonup> u32)" where
  "stage_table [] stages = Inr stages"
| "stage_table (stage # rest) stages =
    (if stEventKind stage = 0 \<or> stStageID stage = 0 then Inl ErrModuleConfig
     else if stages (stEventKind stage) \<noteq> None then Inl ErrModuleConfig
     else stage_table rest (stages(stEventKind stage \<mapsto> stStageID stage)))"

definition validateModuleConfig :: "'h ModuleProcessConfig \<Rightarrow> error + (u32 \<rightharpoonup> u32)" where
  "validateModuleConfig config =
    (if cfgSocketPath config = [] \<or> cfgModuleName config = [] \<or> cfgPrincipalClass config = 0
       \<or> cfgPrincipalRef config = 0 \<or> length (cfgStages config) = 0 then Inl ErrModuleConfig
     else stage_table (cfgStages config) Map.empty)"

section \<open>Jobs\<close>

record moduleAssembly =
  asEventKind :: u32
  asMessage :: ModuleMessage
  asBody :: "byte list"

record moduleWork =
  mwEventKind :: u32
  mwCorrelationID :: u64
  mwInvocation :: ModuleInvocation
  mwCancelled :: flag_ref

record moduleResult =
  mrWork :: moduleWork
  mrBody :: "byte list"
  mrStatus :: ModuleStatus

text \<open>
  What the goroutine makes of the handler's answer: \<open>seen\<close> is the cancel flag and \<open>now\<close> the clock as it
  reads them after the handler has returned.
\<close>

definition runHandler :: "moduleWork \<Rightarrow> byte list \<times> ModuleStatus \<Rightarrow> bool \<Rightarrow> u64 \<Rightarrow> moduleResult" where
  "runHandler work answer seen now =
    (case answer of (response, status) \<Rightarrow>
      let (status, response) =
            (if \<not> validModuleStatus status \<or> length response > unat ModuleMessageMaxBody
             then (ModuleStatusInternal, [])
             else if status \<noteq> ModuleStatusOK then (status, [])
             else (status, response));
          (status, response) =
            (if seen then (ModuleStatusCancelled, [])
             else if invDeadlineNS (mwInvocation work) \<noteq> 0 \<and> now \<noteq> 0
               \<and> now \<ge> invDeadlineNS (mwInvocation work) then (ModuleStatusDeadlineExceeded, [])
             else (status, response))
      in \<lparr>mrWork = work, mrBody = response, mrStatus = status\<rparr>)"

section \<open>The state of the loop\<close>

record 's serve =
  svAssemblies :: "(u64 \<times> moduleAssembly) list"
  svJobs :: "(u64 \<times> moduleWork) list"
  svDone :: "moduleResult list"
  svRunning :: "(moduleWork \<times> byte list) list"
  svFlags :: flag_store
  svNextFlag :: flag_ref
  svBus :: 's

text \<open>An outcome: the error that ends the loop or none, the fragments sent, the waits used, the state.\<close>

type_synonym 's served = "(error option \<times> (byte list \<times> bool) list \<times> nat \<times> 's serve) option"

definition on_bus :: "'s serve \<Rightarrow> 's reply_result \<Rightarrow> 's served" where
  "on_bus sv r = Option.bind r (\<lambda>(err, sent, i, s). Some (err, sent, i, sv\<lparr>svBus := s\<rparr>))"

definition finishModuleWork ::
  "'s moduleBus \<Rightarrow> (nat \<Rightarrow> 's wait) \<Rightarrow> nat \<Rightarrow> moduleResult \<Rightarrow> 's serve \<Rightarrow> 's served" where
  "finishModuleWork client waits i result sv =
    (let work = mrWork result;
         sv = sv\<lparr>svJobs := AList.delete (mwCorrelationID work) (svJobs sv)\<rparr>
     in on_bus sv (replyModuleResult client waits (mwEventKind work) (mwCorrelationID work)
          (invStageID (mwInvocation work)) (invTraceID (mwInvocation work)) (mrStatus result)
          (mrBody result) i (svBus sv)))"

section \<open>One event\<close>

text \<open>The tests that make a request invalid, in the order of the code.\<close>

definition request_invalid :: "'s serve \<Rightarrow> Event \<Rightarrow> u32 \<Rightarrow> error + ModuleMessage \<Rightarrow> bool" where
  "request_invalid sv event expectedStage decoded \<longleftrightarrow>
    (let correlation = fCorrelationID (evFrame event) in
     expectedStage = 0
     \<or> (case decoded of
          Inl _ \<Rightarrow> True
        | Inr message \<Rightarrow> mOperation message \<noteq> ModuleOpInvoke \<or> mStageID message \<noteq> expectedStage
            \<or> map_of (svJobs sv) correlation \<noteq> None
            \<or> (case map_of (svAssemblies sv) correlation of
                 None \<Rightarrow> False
               | Some assembly \<Rightarrow> asEventKind assembly \<noteq> fEventKind (evFrame event)
                   \<or> mStageID (asMessage assembly) \<noteq> mStageID message
                   \<or> mDeadlineNS (asMessage assembly) \<noteq> mDeadlineNS message
                   \<or> mTraceID (asMessage assembly) \<noteq> mTraceID message)))"

text \<open>
  A complete request: it is refused when its deadline has passed, when no handler is configured and
  when sixteen jobs are in flight, and otherwise becomes a job with a flag of its own.
\<close>

definition dispatch ::
  "bool \<Rightarrow> 's moduleBus \<Rightarrow> (nat \<Rightarrow> 's wait) \<Rightarrow> nat \<Rightarrow> u64 \<Rightarrow> u32 \<Rightarrow> u64 \<Rightarrow> u32 \<Rightarrow> ModuleMessage \<Rightarrow> byte list
   \<Rightarrow> 's serve \<Rightarrow> 's served" where
  "dispatch has_handler client waits i now kind correlation expectedStage message body sv =
    (let refuse = (\<lambda>status. on_bus sv (replyModuleResult client waits kind correlation expectedStage
           (mTraceID message) status [] i (svBus sv)))
     in if DeadlineExpired message now then refuse ModuleStatusDeadlineExceeded
        else if \<not> has_handler then refuse ModuleStatusCapabilityAbsent
        else if length (svJobs sv) \<ge> moduleMaxInFlight then refuse ModuleStatusInternal
        else
         (let cancelled = svNextFlag sv;
              work = \<lparr>mwEventKind = kind, mwCorrelationID = correlation,
                mwInvocation = \<lparr>invStageID = expectedStage, invDeadlineNS = mDeadlineNS message,
                  invTraceID = mTraceID message, invCancelled = Some cancelled\<rparr>,
                mwCancelled = cancelled\<rparr>
          in Some (None, [], i, sv\<lparr>svJobs := AList.update correlation work (svJobs sv),
               svRunning := svRunning sv @ [(work, body)],
               svFlags := (svFlags sv)(cancelled := False), svNextFlag := Suc cancelled\<rparr>)))"

text \<open>A fragment of a valid request: it opens or extends the assembly of its correlation.\<close>

definition accept_fragment ::
  "bool \<Rightarrow> 's moduleBus \<Rightarrow> (nat \<Rightarrow> 's wait) \<Rightarrow> nat \<Rightarrow> u64 \<Rightarrow> Event \<Rightarrow> u32 \<Rightarrow> ModuleMessage \<Rightarrow> 's serve \<Rightarrow> 's served"
where
  "accept_fragment has_handler client waits i now event expectedStage message sv =
    (let f = evFrame event; correlation = fCorrelationID f;
         refuse = (\<lambda>sv. on_bus sv (replyModuleResult client waits (fEventKind f) correlation expectedStage
           (mTraceID message) ModuleStatusInternal [] i (svBus sv)));
         assembly = map_of (svAssemblies sv) correlation
     in if assembly = None \<and> length (svAssemblies sv) \<ge> moduleMaxInFlight then refuse sv
        else
         (let assembly = (case assembly of
                Some a \<Rightarrow> a
              | None \<Rightarrow> \<lparr>asEventKind = fEventKind f, asMessage = message, asBody = []\<rparr>);
              body = slice_at ModuleMessageHeaderLen (unat (mBodyLen message)) (evPayload event)
          in if length (asBody assembly) + length body > unat ModuleMessageMaxBody
             then refuse (sv\<lparr>svAssemblies := AList.delete correlation (svAssemblies sv)\<rparr>)
             else
              (let assembly = assembly\<lparr>asBody := asBody assembly @ body\<rparr>
               in if fHdrFlags f AND FMore \<noteq> 0 then
                    Some (None, [], i, sv\<lparr>svAssemblies :=
                      AList.update correlation assembly (svAssemblies sv)\<rparr>)
                  else
                    dispatch has_handler client waits i now (fEventKind f) correlation expectedStage message
                      (asBody assembly)
                      (sv\<lparr>svAssemblies := AList.delete correlation (svAssemblies sv)\<rparr>))))"

definition handle_event ::
  "bool \<Rightarrow> (u32 \<rightharpoonup> u32) \<Rightarrow> 's moduleBus \<Rightarrow> (nat \<Rightarrow> 's wait) \<Rightarrow> nat \<Rightarrow> u64 \<Rightarrow> Event \<Rightarrow> 's serve \<Rightarrow> 's served"
where
  "handle_event has_handler stages client waits i now event sv =
    (let f = evFrame event; correlation = fCorrelationID f in
     if fHdrFlags f AND FCancel \<noteq> 0 then
      (let flags = (case map_of (svJobs sv) correlation of
              None \<Rightarrow> svFlags sv
            | Some work \<Rightarrow> (svFlags sv)(mwCancelled work := True))
       in Some (None, [], i, sv\<lparr>svFlags := flags,
            svAssemblies := AList.delete correlation (svAssemblies sv)\<rparr>))
     else if fHdrFlags f AND FRequest = 0 then Some (None, [], i, sv)
     else
      (let expectedStage = (case stages (fEventKind f) of None \<Rightarrow> 0 | Some stage \<Rightarrow> stage);
           decoded = DecodeModuleMessage (evPayload event)
       in if request_invalid sv event expectedStage decoded then
           (let sv = sv\<lparr>svAssemblies := AList.delete correlation (svAssemblies sv)\<rparr>
            in on_bus sv (invalidModuleRequest client waits event expectedStage 0 i (svBus sv)))
          else case decoded of Inl _ \<Rightarrow> None | Inr message \<Rightarrow>
            accept_fragment has_handler client waits i now event expectedStage message sv))"

section \<open>The main loop\<close>

text \<open>
  Where the loop is: emptying the result channel, at its checks and the poll, waiting for the jobs
  after the context ended, returned with or without an error, or dead of a panic.
\<close>

datatype phase = Draining | Polling | Stopping | Stopped "error option" | Crashed

definition after :: "'s served \<Rightarrow> (phase \<times> 's serve) option" where
  "after r = (case r of
     None \<Rightarrow> None
   | Some (None, _, _, sv) \<Rightarrow> Some (Draining, sv)
   | Some (Some err, _, _, sv) \<Rightarrow> Some (Stopped (Some err), sv))"

text \<open>The end of the context sets the flag of every job.\<close>

definition cancel_all :: "'s serve \<Rightarrow> 's serve" where
  "cancel_all sv = sv\<lparr>svFlags := (\<lambda>r. svFlags sv r \<or> r \<in> mwCancelled ` snd ` set (svJobs sv))\<rparr>"

text \<open>One pass from the context check to the next round, when the context is alive.\<close>

definition poll_round ::
  "bool \<Rightarrow> (u32 \<rightharpoonup> u32) \<Rightarrow> 's moduleBus \<Rightarrow> (nat \<Rightarrow> 's wait) \<Rightarrow> u64 \<Rightarrow> 's serve \<Rightarrow> (phase \<times> 's serve) option"
where
  "poll_round has_handler stages client waits now sv =
    (if mbEpochChanged client (svBus sv) then Some (Stopped None, sv)
     else
      (let sv = (if now \<noteq> 0 then sv\<lparr>svBus := mbHeartbeat client now (svBus sv)\<rparr> else sv)
       in case mbPoll client (svBus sv) of (res, s) \<Rightarrow>
          (let sv = sv\<lparr>svBus := s\<rparr>
           in case res of
                PollErr err \<Rightarrow> Some (Stopped (if errors_Is err ErrEpoch then None else Some err), sv)
              | PollNone \<Rightarrow> Some (Draining, sv)
              | PollPanic \<Rightarrow> Some (Crashed, sv)
              | PollEvent event \<Rightarrow> after (handle_event has_handler stages client waits 0 now event sv))))"

text \<open>
  The steps of a process: those of the loop, a goroutine that posts its result (it may have read its
  flag before the flag was set, never the other way round), and whatever the host does to the bus.
\<close>

inductive serve_step ::
  "bool \<Rightarrow> (u32 \<rightharpoonup> u32) \<Rightarrow> 's moduleBus \<Rightarrow> phase \<times> 's serve \<Rightarrow> phase \<times> 's serve \<Rightarrow> bool"
  for has_handler stages client
where
  finish: "svDone sv = result # rest \<Longrightarrow>
     after (finishModuleWork client waits 0 result (sv\<lparr>svDone := rest\<rparr>)) = Some nxt \<Longrightarrow>
     serve_step has_handler stages client (Draining, sv) nxt"
| drained: "svDone sv = [] \<Longrightarrow> serve_step has_handler stages client (Draining, sv) (Polling, sv)"
| ctx_done: "serve_step has_handler stages client (Polling, sv) (Stopping, cancel_all sv)"
| poll: "poll_round has_handler stages client waits now sv = Some nxt \<Longrightarrow>
     serve_step has_handler stages client (Polling, sv) nxt"
| stop_take: "svJobs sv \<noteq> [] \<Longrightarrow> svDone sv = result # rest \<Longrightarrow>
     serve_step has_handler stages client (Stopping, sv)
       (Stopping, sv\<lparr>svDone := rest,
          svJobs := AList.delete (mwCorrelationID (mrWork result)) (svJobs sv)\<rparr>)"
| stop_end: "svJobs sv = [] \<Longrightarrow> serve_step has_handler stages client (Stopping, sv) (Stopped None, sv)"
| post: "svRunning sv = before @ (work, body) # behind \<Longrightarrow> length (svDone sv) < moduleMaxInFlight \<Longrightarrow>
     (seen \<Longrightarrow> svFlags sv (mwCancelled work)) \<Longrightarrow>
     serve_step has_handler stages client (ph, sv)
       (ph, sv\<lparr>svRunning := before @ behind, svDone := svDone sv @ [runHandler work answer seen now]\<rparr>)"
| host: "serve_step has_handler stages client (ph, sv) (ph, sv\<lparr>svBus := s\<rparr>)"

definition serve_start :: "'s \<Rightarrow> phase \<times> 's serve" where
  "serve_start s = (Draining, \<lparr>svAssemblies = [], svJobs = [], svDone = [], svRunning = [],
     svFlags = (\<lambda>_. False), svNextFlag = 0, svBus = s\<rparr>)"

text \<open>\<open>RunModuleProcess\<close>: the checks before the loop, and what it makes of a failed connection.\<close>

datatype 'a process = ProcessReturns "error option" | ProcessServes 'a | ProcessHangs

definition RunModuleProcess ::
  "(nat \<Rightarrow> attempt) \<Rightarrow> bool \<Rightarrow> bool \<Rightarrow> 'h ModuleProcessConfig \<Rightarrow> (client_state \<times> (u32 \<rightharpoonup> u32)) process" where
  "RunModuleProcess atts ctxGiven ctxEnded config =
    (case validateModuleConfig config of
       Inl e \<Rightarrow> ProcessReturns (Some e)
     | Inr stages \<Rightarrow>
        if \<not> ctxGiven then ProcessReturns (Some ErrModuleConfig)
        else
         (case connectModule atts config of
            None \<Rightarrow> ProcessHangs
          | Some (client, err, log) \<Rightarrow>
             (case err of
                Some e \<Rightarrow> if ctxEnded then ProcessReturns None
                           else ProcessReturns (Some (Annotated ErrModuleRuntime e))
              | None \<Rightarrow> (case client of
                    Some c \<Rightarrow> ProcessServes (c, stages)
                  | None \<Rightarrow> ProcessHangs))))"

section \<open>The invariant of the loop\<close>

text \<open>
  Both tables have distinct keys and at most sixteen entries; every job is either still running or
  its result is in the channel, never both and never twice; an assembly holds at most 16 MiB, for a
  kind that has a stage.
\<close>

definition pending_works :: "'s serve \<Rightarrow> moduleWork list" where
  "pending_works sv = map fst (svRunning sv) @ map mrWork (svDone sv)"

definition serve_inv :: "(u32 \<rightharpoonup> u32) \<Rightarrow> 's serve \<Rightarrow> bool" where
  "serve_inv stages sv \<longleftrightarrow>
     distinct (map fst (svAssemblies sv)) \<and> length (svAssemblies sv) \<le> moduleMaxInFlight
     \<and> (\<forall>(corr, a) \<in> set (svAssemblies sv). length (asBody a) \<le> unat ModuleMessageMaxBody
          \<and> stages (asEventKind a) = Some (mStageID (asMessage a)) \<and> mStageID (asMessage a) \<noteq> 0)
     \<and> distinct (map fst (svJobs sv)) \<and> length (svJobs sv) \<le> moduleMaxInFlight
     \<and> mset (map snd (svJobs sv)) = mset (pending_works sv)
     \<and> (\<forall>(corr, w) \<in> set (svJobs sv). corr = mwCorrelationID w
          \<and> invCancelled (mwInvocation w) = Some (mwCancelled w) \<and> mwCancelled w < svNextFlag sv
          \<and> stages (mwEventKind w) = Some (invStageID (mwInvocation w)) \<and> invStageID (mwInvocation w) \<noteq> 0)
     \<and> distinct (map (mwCancelled \<circ> snd) (svJobs sv))"

lemma serve_inv_bus [simp]: "serve_inv stages (sv\<lparr>svBus := s\<rparr>) = serve_inv stages sv"
  by (simp add: serve_inv_def pending_works_def)

lemma serve_inv_flags [simp]: "serve_inv stages (sv\<lparr>svFlags := f\<rparr>) = serve_inv stages sv"
  by (simp add: serve_inv_def pending_works_def)

lemma on_bus_Some: "on_bus sv r = Some (err, sent, i, sv') \<Longrightarrow> \<exists>s. sv' = sv\<lparr>svBus := s\<rparr>"
  by (auto simp: on_bus_def bind_eq_Some_conv)

text \<open>Association lists with distinct keys.\<close>

lemma update_new: "k \<notin> fst ` set al \<Longrightarrow> AList.update k v al = al @ [(k, v)]"
  by (induction al) auto

lemma length_update: "length (AList.update k v al) = (if k \<in> fst ` set al then length al else Suc (length al))"
  by (induction al) auto

lemma set_update_subset: "set (AList.update k v al) \<subseteq> insert (k, v) (set al)"
  by (induction al) auto

lemma delete_filter: "AList.delete k al = filter (\<lambda>x. fst x \<noteq> k) al"
  by (simp add: AList.delete_eq case_prod_beta' eq_commute)

lemma delete_entry:
  "distinct (map fst al) \<Longrightarrow> (k, v) \<in> set al \<Longrightarrow> mset al = add_mset (k, v) (mset (AList.delete k al))"
proof (induction al)
  case (Cons x al)
  show ?case
  proof (cases "fst x = k")
    case True
    then have "\<forall>y\<in>set al. fst y \<noteq> k"
      using Cons.prems(1) by (auto simp: image_iff)
    then have "filter (\<lambda>y. fst y \<noteq> k) al = al" by (rule filter_True)
    moreover have "x = (k, v)" using Cons.prems True by (cases x) force
    ultimately show ?thesis by (simp add: delete_filter)
  next
    case False
    then show ?thesis using Cons by (auto simp: delete_filter)
  qed
qed simp

lemma delete_absent: "k \<notin> fst ` set al \<Longrightarrow> AList.delete k al = al"
  unfolding delete_filter by (rule filter_True) auto

lemma length_delete_less: "k \<in> fst ` set al \<Longrightarrow> length (AList.delete k al) < length al"
  unfolding delete_filter by (auto intro: length_filter_less)

lemma serve_inv_delete_assembly:
  "serve_inv stages sv \<Longrightarrow> serve_inv stages (sv\<lparr>svAssemblies := AList.delete corr (svAssemblies sv)\<rparr>)"
  unfolding serve_inv_def pending_works_def
  by (auto simp: delete_filter distinct_map_filter intro: le_trans [OF length_filter_le])

lemma serve_inv_update_assembly:
  assumes "serve_inv stages sv" and "corr \<in> fst ` set (svAssemblies sv) \<or> length (svAssemblies sv) < moduleMaxInFlight"
    and "length (asBody a) \<le> unat ModuleMessageMaxBody" and "stages (asEventKind a) = Some (mStageID (asMessage a))"
    and "mStageID (asMessage a) \<noteq> 0"
  shows "serve_inv stages (sv\<lparr>svAssemblies := AList.update corr a (svAssemblies sv)\<rparr>)"
  using assms set_update_subset [of corr a "svAssemblies sv"]
  unfolding serve_inv_def pending_works_def
  by (auto simp: AList.distinct_update length_update)

lemma serve_inv_start:
  assumes "serve_inv stages sv" and "map_of (svJobs sv) corr = None" and "length (svJobs sv) < moduleMaxInFlight"
    and "stages kind = Some stage" and "stage \<noteq> 0"
    and "w = \<lparr>mwEventKind = kind, mwCorrelationID = corr, mwInvocation = \<lparr>invStageID = stage,
        invDeadlineNS = d, invTraceID = t, invCancelled = Some (svNextFlag sv)\<rparr>, mwCancelled = svNextFlag sv\<rparr>"
  shows "serve_inv stages (sv\<lparr>svJobs := AList.update corr w (svJobs sv), svRunning := svRunning sv @ [(w, body)],
     svFlags := f, svNextFlag := Suc (svNextFlag sv)\<rparr>)"
proof -
  have "corr \<notin> fst ` set (svJobs sv)" using assms(2) by (simp add: map_of_eq_None_iff)
  then have upd: "AList.update corr w (svJobs sv) = svJobs sv @ [(corr, w)]" by (rule update_new)
  have "svNextFlag sv \<notin> (mwCancelled \<circ> snd) ` set (svJobs sv)"
    using assms(1) by (auto simp: serve_inv_def)
  then show ?thesis
    using assms \<open>corr \<notin> fst ` set (svJobs sv)\<close>
    unfolding serve_inv_def pending_works_def upd by (auto simp: less_SucI)
qed

lemma serve_inv_finish:
  assumes "serve_inv stages sv" and "svDone sv = r # rest"
  shows "serve_inv stages (sv\<lparr>svDone := rest,
      svJobs := AList.delete (mwCorrelationID (mrWork r)) (svJobs sv)\<rparr>)"
    and "(mwCorrelationID (mrWork r), mrWork r) \<in> set (svJobs sv)"
proof -
  have "mrWork r \<in># mset (pending_works sv)" by (simp add: pending_works_def assms(2))
  then have "mrWork r \<in># mset (map snd (svJobs sv))" using assms(1) by (simp add: serve_inv_def)
  then obtain k where "(k, mrWork r) \<in> set (svJobs sv)" by auto
  then show mem: "(mwCorrelationID (mrWork r), mrWork r) \<in> set (svJobs sv)"
    using assms(1) by (auto simp: serve_inv_def)
  have "mset (map snd (svJobs sv)) = add_mset (mrWork r)
      (mset (map snd (AList.delete (mwCorrelationID (mrWork r)) (svJobs sv))))"
  proof -
    have "distinct (map fst (svJobs sv))" using assms(1) by (simp add: serve_inv_def)
    from arg_cong [OF delete_entry [OF this mem], of "image_mset snd"] show ?thesis by simp
  qed
  moreover have "mset (pending_works sv) = add_mset (mrWork r) (mset (pending_works (sv\<lparr>svDone := rest\<rparr>)))"
    by (simp add: pending_works_def assms(2))
  ultimately have "mset (map snd (AList.delete (mwCorrelationID (mrWork r)) (svJobs sv)))
      = mset (pending_works (sv\<lparr>svDone := rest\<rparr>))"
    using assms(1) by (simp add: serve_inv_def)
  then show "serve_inv stages (sv\<lparr>svDone := rest,
      svJobs := AList.delete (mwCorrelationID (mrWork r)) (svJobs sv)\<rparr>)"
    using assms(1) unfolding serve_inv_def pending_works_def
    by (auto simp: delete_filter distinct_map_filter intro: le_trans [OF length_filter_le])
qed

lemma on_bus_inv:
  "on_bus sv r = Some (err, sent, i', sv') \<Longrightarrow> serve_inv stages sv \<Longrightarrow> serve_inv stages sv'"
  using on_bus_Some by fastforce

lemma dispatch_inv:
  assumes "serve_inv stages sv" and "map_of (svJobs sv) corr = None" and "stages kind = Some stage" and "stage \<noteq> 0"
    and "dispatch has_handler client waits i now kind corr stage message body sv = Some (err, sent, i', sv')"
  shows "serve_inv stages sv'"
  using assms(5) on_bus_inv [OF _ assms(1)] serve_inv_start [OF assms(1,2) _ assms(3,4) refl]
  by (simp add: dispatch_def Let_def split: if_splits) blast+

text \<open>What a request that is not invalid satisfies.\<close>

definition this_assembly :: "'s serve \<Rightarrow> Event \<Rightarrow> ModuleMessage \<Rightarrow> moduleAssembly" where
  "this_assembly sv event message =
    (case map_of (svAssemblies sv) (fCorrelationID (evFrame event)) of
       Some a \<Rightarrow> a
     | None \<Rightarrow> \<lparr>asEventKind = fEventKind (evFrame event), asMessage = message, asBody = []\<rparr>)"

lemma valid_request_facts:
  assumes "\<not> request_invalid sv event stage (Inr message)"
  shows "stage \<noteq> 0" and "mOperation message = ModuleOpInvoke" and "mStageID message = stage"
    and "map_of (svJobs sv) (fCorrelationID (evFrame event)) = None"
    and "asEventKind (this_assembly sv event message) = fEventKind (evFrame event)"
    and "mStageID (asMessage (this_assembly sv event message)) = stage"
    and "mTraceID (asMessage (this_assembly sv event message)) = mTraceID message"
    and "mDeadlineNS (asMessage (this_assembly sv event message)) = mDeadlineNS message"
  using assms by (auto simp: request_invalid_def Let_def this_assembly_def split: option.splits)

lemma accept_fragment_inv:
  assumes "serve_inv stages sv" and "\<not> request_invalid sv event stage (Inr message)"
    and "stages (fEventKind (evFrame event)) = Some stage"
    and "accept_fragment has_handler client waits i now event stage message sv = Some (err, sent, i', sv')"
  shows "serve_inv stages sv'"
proof -
  let ?corr = "fCorrelationID (evFrame event)" and ?a = "this_assembly sv event message"
  let ?a' = "?a\<lparr>asBody := asBody ?a @ slice_at ModuleMessageHeaderLen (unat (mBodyLen message)) (evPayload event)\<rparr>"
  note facts = valid_request_facts [OF assms(2)]
  note del = serve_inv_delete_assembly [OF assms(1), of ?corr]
  have upd: "serve_inv stages (sv\<lparr>svAssemblies := AList.update ?corr ?a' (svAssemblies sv)\<rparr>)"
    if "map_of (svAssemblies sv) ?corr = None \<longrightarrow> length (svAssemblies sv) < moduleMaxInFlight"
      "length (asBody ?a') \<le> unat ModuleMessageMaxBody"
    using that facts assms(3) by (intro serve_inv_update_assembly [OF assms(1)])
      (auto simp: map_of_eq_None_iff)
  have start: "dispatch has_handler client waits i now (fEventKind (evFrame event)) ?corr stage message body
      (sv\<lparr>svAssemblies := AList.delete ?corr (svAssemblies sv)\<rparr>) = Some (err, sent, i', sv') \<Longrightarrow> serve_inv stages sv'"
    for body
    by (rule dispatch_inv [OF del _ assms(3) facts(1)]) (simp_all add: facts(4))
  show ?thesis
    using assms(4) upd start on_bus_inv [OF _ del] on_bus_inv [OF _ assms(1)]
    unfolding accept_fragment_def Let_def this_assembly_def [symmetric]
    by (auto split: if_splits)
qed

lemma handle_event_inv:
  assumes "serve_inv stages sv"
    and "handle_event has_handler stages client waits i now event sv = Some (err, sent, i', sv')"
  shows "serve_inv stages sv'"
proof -
  let ?f = "evFrame event"
  let ?corr = "fCorrelationID ?f" and ?stage = "case stages (fEventKind ?f) of None \<Rightarrow> 0 | Some stage \<Rightarrow> stage"
  let ?dec = "DecodeModuleMessage (evPayload event)"
  note del = serve_inv_delete_assembly [OF assms(1), of ?corr]
  have "\<exists>message. ?dec = Inr message" if "\<not> request_invalid sv event ?stage ?dec"
    using that by (cases ?dec) (simp_all add: request_invalid_def)
  then consider "fHdrFlags ?f AND FCancel \<noteq> 0" | "fHdrFlags ?f AND FCancel = 0" "fHdrFlags ?f AND FRequest = 0"
    | "fHdrFlags ?f AND FCancel = 0" "fHdrFlags ?f AND FRequest \<noteq> 0" "request_invalid sv event ?stage ?dec"
    | message where "fHdrFlags ?f AND FCancel = 0" "fHdrFlags ?f AND FRequest \<noteq> 0"
      "\<not> request_invalid sv event ?stage ?dec" "?dec = Inr message"
    by blast
  then show ?thesis
  proof cases
    case 1
    then show ?thesis
      using assms del serve_inv_delete_assembly [of stages "sv\<lparr>svFlags := g\<rparr>" ?corr for g]
      by (auto simp: handle_event_def Let_def split: option.splits)
  next
    case 2
    then show ?thesis using assms by (simp add: handle_event_def Let_def)
  next
    case 3
    then show ?thesis
      using assms(2) on_bus_inv [OF _ del] by (simp add: handle_event_def Let_def)
  next
    case (4 message)
    then have valid: "\<not> request_invalid sv event ?stage (Inr message)" by simp
    have "stages (fEventKind ?f) = Some ?stage"
      using valid_request_facts(1) [OF valid] by (auto split: option.splits)
    from accept_fragment_inv [OF assms(1) valid this] show ?thesis
      using assms(2) 4 by (simp add: handle_event_def Let_def)
  qed
qed

lemma finishModuleWork_inv:
  assumes "serve_inv stages sv" and "svDone sv = r # rest"
    and "finishModuleWork client waits i r (sv\<lparr>svDone := rest\<rparr>) = Some (err, sent, i', sv')"
  shows "serve_inv stages sv'"
proof -
  have "on_bus (sv\<lparr>svDone := rest, svJobs := AList.delete (mwCorrelationID (mrWork r)) (svJobs sv)\<rparr>)
      (replyModuleResult client waits (mwEventKind (mrWork r)) (mwCorrelationID (mrWork r))
          (invStageID (mwInvocation (mrWork r))) (invTraceID (mwInvocation (mrWork r))) (mrStatus r)
          (mrBody r) i (svBus sv)) = Some (err, sent, i', sv')"
    using assms(3) by (simp add: finishModuleWork_def Let_def)
  then show ?thesis
    using on_bus_Some serve_inv_finish(1) [OF assms(1,2)] by (metis serve_inv_bus)
qed

lemma after_inv:
  assumes "after r = Some nxt" and "\<And>err sent i sv. r = Some (err, sent, i, sv) \<Longrightarrow> serve_inv stages sv"
  shows "serve_inv stages (snd nxt)"
  using assms by (auto simp: after_def split: option.splits)

lemma poll_round_inv:
  assumes "serve_inv stages sv" and "poll_round has_handler stages client waits now sv = Some nxt"
  shows "serve_inv stages (snd nxt)"
proof -
  define sv1 where "sv1 = (if now \<noteq> 0 then sv\<lparr>svBus := mbHeartbeat client now (svBus sv)\<rparr> else sv)"
  obtain res s where poll: "mbPoll client (svBus sv1) = (res, s)" by fastforce
  have ok: "serve_inv stages (sv1\<lparr>svBus := s\<rparr>)" "serve_inv stages sv1"
    using assms(1) by (simp_all add: sv1_def)
  have event: "serve_inv stages (snd nxt)"
    if "after (handle_event has_handler stages client waits 0 now event (sv1\<lparr>svBus := s\<rparr>)) = Some nxt" for event
    using after_inv [OF that] handle_event_inv [OF ok(1)] by blast
  show ?thesis
    using assms ok event unfolding poll_round_def Let_def sv1_def [symmetric] poll prod.case
    by (cases res) (auto split: if_splits)
qed

lemma serve_step_inv:
  assumes "serve_step has_handler stages client a b" and "serve_inv stages (snd a)"
  shows "serve_inv stages (snd b)"
  using assms
proof (induction rule: serve_step.induct)
  case (finish sv result rest waits nxt)
  then show ?case
    using after_inv finishModuleWork_inv by (metis (no_types, lifting) snd_conv)
next
  case (poll waits now sv nxt)
  then show ?case using poll_round_inv by (metis snd_conv)
next
  case (stop_take sv result rest)
  then show ?case using serve_inv_finish(1) by fastforce
next
  case (post sv before work body behind seen ph answer now)
  then show ?case
    by (auto simp: serve_inv_def pending_works_def runHandler_def split: prod.split)
qed (simp_all add: cancel_all_def)

lemma serve_start_inv: "serve_inv stages (snd (serve_start s))"
  by (simp add: serve_start_def serve_inv_def pending_works_def)

lemma serve_reachable_inv:
  assumes "(serve_step has_handler stages client)\<^sup>*\<^sup>* (serve_start s) b"
  shows "serve_inv stages (snd b)"
  using assms
  by (induction rule: rtranclp_induct) (auto intro: serve_step_inv serve_start_inv)

lemma pending_bound:
  assumes "serve_inv stages sv"
  shows "length (svRunning sv) + length (svDone sv) = length (svJobs sv)"
proof -
  have "length (map snd (svJobs sv)) = length (pending_works sv)"
    using assms unfolding serve_inv_def by (metis size_mset)
  then show ?thesis by (simp add: pending_works_def)
qed

end
