(* ===== verification/Runtime.thy ===== *)
theory Runtime
  imports Serve
begin

text \<open>
  Properties of the serving runtime of \<open>server-go/bus/module_runtime.go\<close>: its configuration, what a
  job reports, the invariant of every reachable state, cancellation, shutdown, and the way from the
  fragments of a request to a job.
\<close>

section \<open>Configuration and results\<close>

lemma stage_table_iff:
  "stage_table xs m = Inr stages \<longleftrightarrow>
     (\<forall>x\<in>set xs. stEventKind x \<noteq> 0 \<and> stStageID x \<noteq> 0 \<and> m (stEventKind x) = None)
     \<and> distinct (map stEventKind xs)
     \<and> stages = m ++ map_of (map (\<lambda>x. (stEventKind x, stStageID x)) xs)"
proof (induction xs arbitrary: m)
  case Nil
  then show ?case by auto
next
  case (Cons x xs)
  let ?kv = "map (\<lambda>x. (stEventKind x, stStageID x))"
  let ?m = "m(stEventKind x \<mapsto> stStageID x)"
  define M where "M = m ++ map_of (?kv (x # xs))"
  have "stage_table (x # xs) m = Inr stages \<longleftrightarrow>
     (\<forall>x\<in>set (x # xs). stEventKind x \<noteq> 0 \<and> stStageID x \<noteq> 0 \<and> m (stEventKind x) = None)
     \<and> distinct (map stEventKind (x # xs)) \<and> stages = M"
  proof (cases "stEventKind x \<in> stEventKind ` set xs")
    case True
    then obtain y where "y \<in> set xs" "stEventKind y = stEventKind x" by force
    then have "\<not> (\<forall>y\<in>set xs. stEventKind y \<noteq> 0 \<and> stStageID y \<noteq> 0 \<and> ?m (stEventKind y) = None)"
      by auto
    then have "stage_table xs ?m \<noteq> Inr stages" by (simp only: Cons.IH simp_thms)
    then show ?thesis using True by simp
  next
    case False
    then have "map_of (?kv xs) (stEventKind x) = None" by (auto simp: map_of_eq_None_iff)
    then have "?m ++ map_of (?kv xs) = M"
      by (auto simp: M_def fun_eq_iff map_add_def split: option.split)
    moreover have "(\<forall>y\<in>set xs. stEventKind y \<noteq> 0 \<and> stStageID y \<noteq> 0 \<and> ?m (stEventKind y) = None)
        \<longleftrightarrow> (\<forall>y\<in>set xs. stEventKind y \<noteq> 0 \<and> stStageID y \<noteq> 0 \<and> m (stEventKind y) = None)"
      using False by (auto simp: image_iff)
    ultimately have "stage_table xs ?m = Inr stages \<longleftrightarrow>
        (\<forall>y\<in>set xs. stEventKind y \<noteq> 0 \<and> stStageID y \<noteq> 0 \<and> m (stEventKind y) = None)
        \<and> distinct (map stEventKind xs) \<and> stages = M"
      by (simp only: Cons.IH)
    then show ?thesis using False by auto
  qed
  then show ?case by (simp only: M_def)
qed

text \<open>The stage table. A configuration is accepted exactly when the socket, the name, the class and
  the reference are given, there is at least one stage, no kind or stage number is zero and no kind
  occurs twice; the table then maps each kind to its stage and nothing else.\<close>

theorem validate_config_iff:
  "validateModuleConfig config = Inr stages \<longleftrightarrow>
     cfgSocketPath config \<noteq> [] \<and> cfgModuleName config \<noteq> [] \<and> cfgPrincipalClass config \<noteq> 0
     \<and> cfgPrincipalRef config \<noteq> 0 \<and> cfgStages config \<noteq> []
     \<and> list_all (\<lambda>x. stEventKind x \<noteq> 0 \<and> stStageID x \<noteq> 0) (cfgStages config)
     \<and> distinct (map stEventKind (cfgStages config))
     \<and> stages = map_of (map (\<lambda>x. (stEventKind x, stStageID x)) (cfgStages config))"
  unfolding validateModuleConfig_def by (auto simp: stage_table_iff list_all_iff)

lemma runHandler_eq:
  "runHandler work (response, status) seen now =
    (let st = (if seen then ModuleStatusCancelled
           else if invDeadlineNS (mwInvocation work) \<noteq> 0 \<and> now \<noteq> 0 \<and> now \<ge> invDeadlineNS (mwInvocation work)
           then ModuleStatusDeadlineExceeded
           else if \<not> validModuleStatus status \<or> length response > unat ModuleMessageMaxBody
           then ModuleStatusInternal else status)
     in \<lparr>mrWork = work, mrBody = (if st = ModuleStatusOK then response else []), mrStatus = st\<rparr>)"
  unfolding runHandler_def validModuleStatus_def by (auto simp: Let_def go_const)

text \<open>C19: What a finished job reports. It reports success, with the handler's body, exactly when the
  handler did so with a body of at most 16 MiB, the job was not seen cancelled and its deadline had
  not passed; in every other case there is no body and the status names the first reason in the
  order cancellation, deadline, malformed answer, the handler's own status.\<close>

theorem run_handler_spec:
  assumes "r = runHandler work (response, status) seen now"
  defines "late \<equiv> invDeadlineNS (mwInvocation work) \<noteq> 0 \<and> now \<noteq> 0 \<and> now \<ge> invDeadlineNS (mwInvocation work)"
    and "malformed \<equiv> \<not> validModuleStatus status \<or> length response > unat ModuleMessageMaxBody"
  shows "mrWork r = work \<and> validModuleStatus (mrStatus r) \<and> length (mrBody r) \<le> unat ModuleMessageMaxBody
     \<and> mrStatus r = (if seen then ModuleStatusCancelled else if late then ModuleStatusDeadlineExceeded
          else if malformed then ModuleStatusInternal else status)
     \<and> mrBody r = (if mrStatus r = ModuleStatusOK then response else [])"
  unfolding assms runHandler_eq Let_def by (auto simp: validModuleStatus_def go_const)

lemma run_handler_spec_witness:
  "mrStatus (runHandler \<lparr>mwEventKind = 6401, mwCorrelationID = 9, mwInvocation = \<lparr>invStageID = 1,
      invDeadlineNS = 50, invTraceID = 7, invCancelled = Some 0\<rparr>, mwCancelled = 0\<rparr>
      ([1, 2], ModuleStatusOK) False 60) = ModuleStatusDeadlineExceeded"
  by (subst run_handler_spec [OF refl, THEN conjunct2, THEN conjunct2, THEN conjunct2, THEN conjunct1]) simp

text \<open>C2: Every state a serving process can reach, whatever the peers, the handlers, the clock and the
  scheduler do, has at most sixteen requests in assembly and sixteen jobs; every job is running or has
  exactly one result in the channel; an assembled body never exceeds 16 MiB; and the channel always
  has room for the result of a job that is still running, so no goroutine ever blocks.\<close>

theorem serve_invariant:
  assumes "(serve_step has_handler stages client)\<^sup>*\<^sup>* (serve_start s) (ph, sv)"
  shows "serve_inv stages sv \<and> length (svDone sv) \<le> moduleMaxInFlight
     \<and> (svRunning sv \<noteq> [] \<longrightarrow> length (svDone sv) < moduleMaxInFlight)"
proof -
  have iv: "serve_inv stages sv" using serve_reachable_inv [OF assms] by simp
  then have "length (svJobs sv) \<le> moduleMaxInFlight" by (simp add: serve_inv_def)
  with pending_bound [OF iv] iv show ?thesis by (cases "svRunning sv") auto
qed

text \<open>A bus that accepts every reply and delivers one complete request.\<close>

definition sink_bus :: "Event option moduleBus" where
  "sink_bus = \<lparr>mbPoll = (\<lambda>s. case s of Some ev \<Rightarrow> (PollEvent ev, None) | None \<Rightarrow> (PollNone, None)),
     mbReplyFragment = (\<lambda>_ _ _ _ s. (None, s)), mbHeartbeat = (\<lambda>_ s. s), mbEpochChanged = (\<lambda>_. False),
     mbInlineBudget = (\<lambda>_. 100)\<rparr>"

definition route_stages :: "u32 \<rightharpoonup> u32" where
  "route_stages = [6401 \<mapsto> 1]"

definition invoke_message :: "u32 \<Rightarrow> ModuleMessage" where
  "invoke_message n = \<lparr>mOperation = ModuleOpInvoke, mStatus = ModuleStatusOK, mStageID = 1, mFlags = 0,
     mBodyLen = n, mDeadlineNS = 0, mTraceID = 7\<rparr>"

definition request_event :: "u16 \<Rightarrow> byte list \<Rightarrow> Event" where
  "request_event flags body = \<lparr>evFrame = zero_frame\<lparr>fHdrFlags := flags, fEventKind := 6401, fCorrelationID := 9\<rparr>,
     evPayload = message_header (invoke_message (of_nat (length body))) @ body\<rparr>"

lemma request_event_decodes:
  assumes "length body \<le> unat ModuleMessageMaxBody"
  shows "DecodeModuleMessage (evPayload (request_event flags body)) = Inr (invoke_message (of_nat (length body)))"
    and "slice_at ModuleMessageHeaderLen (unat (mBodyLen (invoke_message (of_nat (length body)))))
       (evPayload (request_event flags body)) = body"
proof -
  note len = body_len_small [OF assms]
  have "message_valid (invoke_message (of_nat (length body)))"
    using len(2) by (simp add: message_valid_def invoke_message_def ModuleOpInvoke_def
        ModuleOpResult_def ModuleStatusOK_def ModuleStatusInternal_def)
  then show "DecodeModuleMessage (evPayload (request_event flags body)) = Inr (invoke_message (of_nat (length body)))"
    unfolding request_event_def by (simp add: DecodeModuleMessage_header invoke_message_def len(1))
  show "slice_at ModuleMessageHeaderLen (unat (mBodyLen (invoke_message (of_nat (length body)))))
       (evPayload (request_event flags body)) = body"
    by (simp add: request_event_def slice_at_def invoke_message_def len(1))
qed

section \<open>From fragments to a job\<close>

text \<open>
  An event that is fragment \<open>p\<close> of the request \<open>corr\<close> for a stage, with the deadline and the trace of the
  request.
\<close>

record request =
  rqKind :: u32
  rqCorr :: u64
  rqStage :: u32
  rqDeadline :: u64
  rqTrace :: u64

definition is_fragment :: "(u32 \<rightharpoonup> u32) \<Rightarrow> request \<Rightarrow> byte list \<Rightarrow> bool \<Rightarrow> Event \<Rightarrow> bool" where
  "is_fragment stages rq p has_more ev \<longleftrightarrow>
     (let f = evFrame ev in
      fHdrFlags f AND FCancel = 0 \<and> fHdrFlags f AND FRequest \<noteq> 0 \<and> (fHdrFlags f AND FMore \<noteq> 0 \<longleftrightarrow> has_more)
      \<and> fEventKind f = rqKind rq \<and> fCorrelationID f = rqCorr rq
      \<and> stages (rqKind rq) = Some (rqStage rq) \<and> rqStage rq \<noteq> 0
      \<and> (case DecodeModuleMessage (evPayload ev) of
           Inl _ \<Rightarrow> False
         | Inr m \<Rightarrow> mOperation m = ModuleOpInvoke \<and> mStageID m = rqStage rq \<and> mDeadlineNS m = rqDeadline rq
             \<and> mTraceID m = rqTrace rq
             \<and> slice_at ModuleMessageHeaderLen (unat (mBodyLen m)) (evPayload ev) = p))"

definition belongs :: "request \<Rightarrow> moduleAssembly \<Rightarrow> bool" where
  "belongs rq a \<longleftrightarrow> asEventKind a = rqKind rq \<and> mStageID (asMessage a) = rqStage rq
     \<and> mDeadlineNS (asMessage a) = rqDeadline rq \<and> mTraceID (asMessage a) = rqTrace rq"

text \<open>What has been assembled of a request so far, and whether the next fragment is expected.\<close>

definition so_far :: "request \<Rightarrow> 's serve \<Rightarrow> byte list" where
  "so_far rq sv = (case map_of (svAssemblies sv) (rqCorr rq) of None \<Rightarrow> [] | Some a \<Rightarrow> asBody a)"

definition expects :: "request \<Rightarrow> 's serve \<Rightarrow> bool" where
  "expects rq sv \<longleftrightarrow> map_of (svJobs sv) (rqCorr rq) = None
     \<and> (case map_of (svAssemblies sv) (rqCorr rq) of
          None \<Rightarrow> length (svAssemblies sv) < moduleMaxInFlight
        | Some a \<Rightarrow> belongs rq a)"

text \<open>The job a complete request becomes, or the status with which it is refused.\<close>

definition job_of :: "request \<Rightarrow> flag_ref \<Rightarrow> moduleWork" where
  "job_of rq flag = \<lparr>mwEventKind = rqKind rq, mwCorrelationID = rqCorr rq,
     mwInvocation = \<lparr>invStageID = rqStage rq, invDeadlineNS = rqDeadline rq, invTraceID = rqTrace rq,
       invCancelled = Some flag\<rparr>, mwCancelled = flag\<rparr>"

definition refusal :: "bool \<Rightarrow> u64 \<Rightarrow> request \<Rightarrow> 's serve \<Rightarrow> ModuleStatus option" where
  "refusal has_handler now rq sv =
    (if rqDeadline rq \<noteq> 0 \<and> now \<ge> rqDeadline rq then Some ModuleStatusDeadlineExceeded
     else if \<not> has_handler then Some ModuleStatusCapabilityAbsent
     else if length (svJobs sv) \<ge> moduleMaxInFlight then Some ModuleStatusInternal
     else None)"

definition complete ::
  "bool \<Rightarrow> 's moduleBus \<Rightarrow> (nat \<Rightarrow> 's wait) \<Rightarrow> nat \<Rightarrow> u64 \<Rightarrow> request \<Rightarrow> byte list \<Rightarrow> 's serve \<Rightarrow> 's served" where
  "complete has_handler client waits i now rq body sv =
    (case refusal has_handler now rq sv of
       Some status \<Rightarrow> on_bus sv (replyModuleResult client waits (rqKind rq) (rqCorr rq) (rqStage rq)
         (rqTrace rq) status [] i (svBus sv))
     | None \<Rightarrow>
        let work = job_of rq (svNextFlag sv)
        in Some (None, [], i, sv\<lparr>svJobs := AList.update (rqCorr rq) work (svJobs sv),
             svRunning := svRunning sv @ [(work, body)],
             svFlags := (svFlags sv)(svNextFlag sv := False), svNextFlag := Suc (svNextFlag sv)\<rparr>))"

lemma refusal_state: "svJobs sv' = svJobs sv \<Longrightarrow> refusal has_handler now rq sv' = refusal has_handler now rq sv"
  by (simp add: refusal_def)

lemma dispatch_complete:
  assumes "mDeadlineNS m = rqDeadline rq" and "mTraceID m = rqTrace rq"
  shows "dispatch has_handler client waits i now (rqKind rq) (rqCorr rq) (rqStage rq) m body sv
    = complete has_handler client waits i now rq body sv"
  using assms by (auto simp: dispatch_def complete_def refusal_def DeadlineExpired_def job_of_def Let_def)

lemma fragment_facts:
  assumes "is_fragment stages rq p has_more ev" and "expects rq sv"
  obtains m where "DecodeModuleMessage (evPayload ev) = Inr m"
    and "\<not> request_invalid sv ev (rqStage rq) (Inr m)"
    and "slice_at ModuleMessageHeaderLen (unat (mBodyLen m)) (evPayload ev) = p"
    and "mDeadlineNS m = rqDeadline rq" and "mTraceID m = rqTrace rq"
    and "fHdrFlags (evFrame ev) AND FCancel = 0" and "fHdrFlags (evFrame ev) AND FRequest \<noteq> 0"
    and "fHdrFlags (evFrame ev) AND FMore \<noteq> 0 \<longleftrightarrow> has_more"
    and "fEventKind (evFrame ev) = rqKind rq" and "fCorrelationID (evFrame ev) = rqCorr rq"
    and "stages (rqKind rq) = Some (rqStage rq)"
    and "asBody (this_assembly sv ev m) = so_far rq sv" and "belongs rq (this_assembly sv ev m)"
proof -
  obtain m where "DecodeModuleMessage (evPayload ev) = Inr m"
    using assms(1) by (auto simp: is_fragment_def Let_def split: sum.splits)
  with assms show thesis
    by (intro that [of m])
      (auto simp: is_fragment_def Let_def request_invalid_def expects_def belongs_def this_assembly_def
        so_far_def split: option.splits)
qed

text \<open>One fragment: the assembly grows, and the last one completes the request.\<close>

lemma handle_fragment:
  assumes "is_fragment stages rq p has_more ev" and "expects rq sv"
  shows "handle_event has_handler stages client waits i now ev sv =
    (let sv_del = sv\<lparr>svAssemblies := AList.delete (rqCorr rq) (svAssemblies sv)\<rparr>
     in if length (so_far rq sv) + length p > unat ModuleMessageMaxBody
        then on_bus sv_del (replyModuleResult client waits (rqKind rq) (rqCorr rq) (rqStage rq) (rqTrace rq)
          ModuleStatusInternal [] i (svBus sv))
        else if has_more
        then Some (None, [], i, sv\<lparr>svAssemblies := AList.update (rqCorr rq)
          ((this_assembly sv ev (the (decode_message (evPayload ev))))\<lparr>asBody := so_far rq sv @ p\<rparr>) (svAssemblies sv)\<rparr>)
        else complete has_handler client waits i now rq (so_far rq sv @ p) sv_del)"
proof -
  obtain m where m: "DecodeModuleMessage (evPayload ev) = Inr m"
    "\<not> request_invalid sv ev (rqStage rq) (Inr m)"
    "slice_at ModuleMessageHeaderLen (unat (mBodyLen m)) (evPayload ev) = p"
    "mDeadlineNS m = rqDeadline rq" "mTraceID m = rqTrace rq"
    "fHdrFlags (evFrame ev) AND FCancel = 0" "fHdrFlags (evFrame ev) AND FRequest \<noteq> 0"
    "fHdrFlags (evFrame ev) AND FMore \<noteq> 0 \<longleftrightarrow> has_more"
    "fEventKind (evFrame ev) = rqKind rq" "fCorrelationID (evFrame ev) = rqCorr rq"
    "stages (rqKind rq) = Some (rqStage rq)"
    "asBody (this_assembly sv ev m) = so_far rq sv" "belongs rq (this_assembly sv ev m)"
    by (rule fragment_facts [OF assms])
  have room: "\<not> (map_of (svAssemblies sv) (rqCorr rq) = None \<and> moduleMaxInFlight \<le> length (svAssemblies sv))"
    using assms(2) by (auto simp: expects_def)
  have "handle_event has_handler stages client waits i now ev sv
      = accept_fragment has_handler client waits i now ev (rqStage rq) m sv"
    using m by (simp add: handle_event_def Let_def)
  moreover have "this_assembly sv ev m = (case map_of (svAssemblies sv) (rqCorr rq) of Some a \<Rightarrow> a
      | None \<Rightarrow> \<lparr>asEventKind = rqKind rq, asMessage = m, asBody = []\<rparr>)"
    by (simp only: this_assembly_def m(9,10))
  moreover have "the (decode_message (evPayload ev)) = m" using m(1) by (simp add: decode_message_def)
  ultimately show ?thesis
    unfolding accept_fragment_def Let_def m(9,10) using room m(3,5,8,12)
    by (simp add: dispatch_complete [OF m(4,5)])
qed

text \<open>A whole request, fragment by fragment; the clock may move between the events.\<close>

fun handle_events ::
  "bool \<Rightarrow> (u32 \<rightharpoonup> u32) \<Rightarrow> 's moduleBus \<Rightarrow> (nat \<Rightarrow> 's wait) \<Rightarrow> nat \<Rightarrow> (u64 \<times> Event) list \<Rightarrow> 's serve \<Rightarrow> 's served"
where
  "handle_events has_handler stages client waits i [] sv = Some (None, [], i, sv)"
| "handle_events has_handler stages client waits i ((now, ev) # evs) sv =
    Option.bind (handle_event has_handler stages client waits i now ev sv)
      (\<lambda>(err, sent, i, sv). case err of
         Some err \<Rightarrow> Some (Some err, sent, i, sv)
       | None \<Rightarrow> Option.bind (handle_events has_handler stages client waits i evs sv)
           (\<lambda>(err, sent', i, sv). Some (err, sent @ sent', i, sv)))"

lemma delete_update: "AList.delete k (AList.update k v al) = AList.delete k al"
  by (induction al) (auto simp: delete_filter)

lemma so_far_update [simp]:
  "so_far rq (sv\<lparr>svAssemblies := AList.update (rqCorr rq) a (svAssemblies sv)\<rparr>) = asBody a"
  by (simp add: so_far_def update_conv')

lemma expects_update:
  "expects rq sv \<Longrightarrow> belongs rq a
    \<Longrightarrow> expects rq (sv\<lparr>svAssemblies := AList.update (rqCorr rq) a (svAssemblies sv)\<rparr>)"
  by (simp add: expects_def update_conv')

lemma bind_served [simp]:
  "Option.bind r (\<lambda>(err, sent, i, sv). case err of None \<Rightarrow> Some (None, sent, i, sv)
     | Some err \<Rightarrow> Some (Some err, sent, i, sv)) = r"
  by (cases r) (auto split: option.split)

lemma fragments_assemble:
  assumes "list_all2 (\<lambda>(p, m) (now, ev). is_fragment stages rq p m ev) parts evs"
    and "parts = ys @ [(p, False)]" and "\<forall>y\<in>set ys. snd y" and "expects rq sv"
    and "length (so_far rq sv) + length (concat (map fst parts)) \<le> unat ModuleMessageMaxBody"
  shows "handle_events has_handler stages client waits i evs sv
    = complete has_handler client waits i (fst (last evs)) rq (so_far rq sv @ concat (map fst parts))
        (sv\<lparr>svAssemblies := AList.delete (rqCorr rq) (svAssemblies sv)\<rparr>)"
  using assms
proof (induction ys arbitrary: parts evs sv)
  case Nil
  then obtain now ev where evs: "evs = [(now, ev)]" "is_fragment stages rq p False ev"
    by (auto simp: list_all2_Cons1)
  have "length (so_far rq sv) + length p \<le> unat ModuleMessageMaxBody"
    using Nil.prems(2,5) by simp
  then show ?case
    using Nil.prems(2) by (simp add: evs handle_fragment [OF evs(2) Nil.prems(4)] Let_def
        cong: option.case_cong)
next
  case (Cons y ys)
  obtain q where y: "y = (q, True)" using Cons.prems(3) by (cases y) auto
  obtain now ev evs' where evs: "evs = (now, ev) # evs'" "is_fragment stages rq q True ev"
    and rest: "list_all2 (\<lambda>(p, m) (now, ev). is_fragment stages rq p m ev) (ys @ [(p, False)]) evs'"
    using Cons.prems(1,2) y by (auto simp: list_all2_Cons1)
  obtain m where m: "DecodeModuleMessage (evPayload ev) = Inr m" "belongs rq (this_assembly sv ev m)"
    using fragment_facts [OF evs(2) Cons.prems(4)] by metis
  then have the_m: "the (decode_message (evPayload ev)) = m" by (simp add: decode_message_def)
  let ?a = "(this_assembly sv ev m)\<lparr>asBody := so_far rq sv @ q\<rparr>"
  let ?sv = "sv\<lparr>svAssemblies := AList.update (rqCorr rq) ?a (svAssemblies sv)\<rparr>"
  have small: "length (so_far rq sv) + length q \<le> unat ModuleMessageMaxBody"
    using Cons.prems(2,5) y by simp
  have step: "handle_event has_handler stages client waits i now ev sv = Some (None, [], i, ?sv)"
    using small by (simp add: handle_fragment [OF evs(2) Cons.prems(4)] Let_def the_m)
  have "belongs rq ?a" using m(2) by (simp add: belongs_def)
  then have "expects rq ?sv" by (rule expects_update [OF Cons.prems(4)])
  moreover have "length (so_far rq ?sv) + length (concat (map fst (ys @ [(p, False)]))) \<le> unat ModuleMessageMaxBody"
    using Cons.prems(2,5) y by simp
  ultimately have ih: "handle_events has_handler stages client waits i evs' ?sv
    = complete has_handler client waits i (fst (last evs')) rq (so_far rq ?sv @ concat (map fst (ys @ [(p, False)])))
        (?sv\<lparr>svAssemblies := AList.delete (rqCorr rq) (svAssemblies ?sv)\<rparr>)"
    using Cons.IH [OF rest refl] Cons.prems(3) by simp
  have "evs' \<noteq> []" using rest by auto
  then show ?case
    using Cons.prems(2) y by (simp add: evs step ih delete_update)
qed

lemma request_to_job:
  assumes "list_all2 (\<lambda>(p, m) (now, ev). is_fragment stages rq p m ev) (frag_list n body) evs"
    and "map_of (svJobs sv) (rqCorr rq) = None" and "map_of (svAssemblies sv) (rqCorr rq) = None"
    and "length (svAssemblies sv) < moduleMaxInFlight" and "length body \<le> unat ModuleMessageMaxBody"
    and "refusal has_handler (fst (last evs)) rq sv = None"
  shows "handle_events has_handler stages client waits i evs sv = Some (None, [], i,
     sv\<lparr>svJobs := AList.update (rqCorr rq) (job_of rq (svNextFlag sv)) (svJobs sv),
        svRunning := svRunning sv @ [(job_of rq (svNextFlag sv), body)],
        svFlags := (svFlags sv)(svNextFlag sv := False), svNextFlag := Suc (svNextFlag sv)\<rparr>)"
proof -
  obtain ys p where parts: "frag_list n body = ys @ [(p, False)]" "\<forall>y\<in>set ys. snd y"
    using frag_list_flags by blast
  have "rqCorr rq \<notin> fst ` set (svAssemblies sv)" using assms(3) by (simp add: map_of_eq_None_iff)
  then have "AList.delete (rqCorr rq) (svAssemblies sv) = svAssemblies sv"
    by (rule delete_absent)
  moreover have "expects rq sv" "so_far rq sv = []"
    using assms(2-4) by (simp_all add: expects_def so_far_def)
  ultimately show ?thesis
    using fragments_assemble [OF assms(1) parts, of sv has_handler client waits i] assms(5,6)
    by (simp add: frag_list_join complete_def Let_def)
qed

text \<open>C5: From the fragments of a request to a job. When the events of a request arrive in order while its
  correlation is free and a place for an assembly is left, the runtime sends nothing until the last
  one; then, unless the request is late, no handler is configured or sixteen jobs are in flight, it
  starts exactly one job, for the whole body, with the stage, the deadline and the trace of the
  request and a fresh flag, and leaves the other requests alone.\<close>

theorem request_becomes_job:
  assumes "list_all2 (\<lambda>(p, m) (now, ev). is_fragment stages rq p m ev) (frag_list n body) evs"
    and "map_of (svJobs sv) (rqCorr rq) = None" and "map_of (svAssemblies sv) (rqCorr rq) = None"
    and "length (svAssemblies sv) < moduleMaxInFlight" and "length body \<le> unat ModuleMessageMaxBody"
    and "refusal has_handler (fst (last evs)) rq sv = None"
  shows "handle_events has_handler stages client waits i evs sv = Some (None, [], i,
     sv\<lparr>svJobs := AList.update (rqCorr rq) (job_of rq (svNextFlag sv)) (svJobs sv),
        svRunning := svRunning sv @ [(job_of rq (svNextFlag sv), body)],
        svFlags := (svFlags sv)(svNextFlag sv := False), svNextFlag := Suc (svNextFlag sv)\<rparr>)"
  using assms by (rule request_to_job)

text \<open>Concrete events that are fragments of the request with correlation 9.\<close>

definition sample_request :: request where
  "sample_request = \<lparr>rqKind = 6401, rqCorr = 9, rqStage = 1, rqDeadline = 0, rqTrace = 7\<rparr>"

lemma request_event_fragment:
  assumes "length body \<le> unat ModuleMessageMaxBody" and "flags = (if has_more then FRequest OR FMore else FRequest)"
  shows "is_fragment route_stages sample_request body has_more (request_event flags body)"
proof -
  have frame: "fHdrFlags (evFrame (request_event flags body)) = flags"
    "fEventKind (evFrame (request_event flags body)) = 6401" "fCorrelationID (evFrame (request_event flags body)) = 9"
    by (simp_all add: request_event_def)
  have "flags AND FCancel = 0" "flags AND FRequest \<noteq> 0" "flags AND FMore \<noteq> 0 \<longleftrightarrow> has_more"
    by (simp_all add: assms(2) go_const)
  then show ?thesis
    unfolding is_fragment_def Let_def frame request_event_decodes [OF assms(1)] sum.case
    using request_event_decodes(2) [OF assms(1), of flags]
    by (simp add: sample_request_def route_stages_def invoke_message_def)
qed

definition idle_state :: "Event option serve" where
  "idle_state = snd (serve_start None)"

lemma idle_fields [simp]:
  "svAssemblies idle_state = []" "svJobs idle_state = []" "svRunning idle_state = []" "svDone idle_state = []"
  "svNextFlag idle_state = 0" "svBus idle_state = None"
  by (simp_all add: idle_state_def serve_start_def)

lemma request_becomes_job_witness:
  "handle_events True route_stages sink_bus short_waits 0
      [(5, request_event (FRequest OR FMore) [1, 2]), (6, request_event FRequest [3])] idle_state
   = Some (None, [], 0, idle_state\<lparr>svJobs := [(9, job_of sample_request 0)],
        svRunning := [(job_of sample_request 0, [1, 2, 3])],
        svFlags := (svFlags idle_state)(0 := False), svNextFlag := 1\<rparr>)"
proof -
  have "frag_list 2 [1, 2, 3] = [([1, 2], True), ([3], False)]"
    by (simp add: frag_list.simps)
  then have "list_all2 (\<lambda>(p, m) (now, ev). is_fragment route_stages sample_request p m ev) (frag_list 2 [1, 2, 3])
      [(5 :: u64, request_event (FRequest OR FMore) [1, 2]), (6, request_event FRequest [3])]"
    using request_event_fragment [of "[1, 2]" _ True] request_event_fragment [of "[3]" _ False]
    by (simp add: ModuleMessageMaxBody_def)
  from request_becomes_job [OF this, of idle_state True sink_bus short_waits 0] show ?thesis
    by (simp add: sample_request_def moduleMaxInFlight_def ModuleMessageMaxBody_def refusal_def)
qed

text \<open>C35: A request that outgrows 16 MiB is refused and its assembly is dropped, but nothing remembers the
  refusal: the fragments of it that are still to come open a new assembly, and the last one is run as
  a request of its own. The handler is called with the tail of a request whose caller has been told
  that it failed.\<close>

theorem refused_tail_is_run:
  assumes "is_fragment stages rq p True ev1" and "is_fragment stages rq q False ev2"
    and "map_of (svJobs sv) (rqCorr rq) = None" and "map_of (svAssemblies sv) (rqCorr rq) = Some a"
    and "belongs rq a" and "length (svAssemblies sv) \<le> moduleMaxInFlight"
    and "length (asBody a) + length p > unat ModuleMessageMaxBody" and "length q \<le> unat ModuleMessageMaxBody"
    and "replyModuleResult client waits (rqKind rq) (rqCorr rq) (rqStage rq) (rqTrace rq) ModuleStatusInternal [] i
       (svBus sv) = Some (None, sent, i', s)"
    and "refusal has_handler now2 rq sv = None"
  shows "\<exists>sv'. handle_events has_handler stages client waits i [(now1, ev1), (now2, ev2)] sv = Some (None, sent, i', sv')
     \<and> svRunning sv' = svRunning sv @ [(job_of rq (svNextFlag sv), q)]"
proof -
  let ?del = "AList.delete (rqCorr rq) (svAssemblies sv)"
  let ?sv = "sv\<lparr>svAssemblies := ?del, svBus := s\<rparr>"
  have expects: "expects rq sv" and so_far: "so_far rq sv = asBody a"
    using assms(3-5) by (simp_all add: expects_def so_far_def)
  have first: "handle_event has_handler stages client waits i now1 ev1 sv = Some (None, sent, i', ?sv)"
    using assms(7,9) by (simp add: handle_fragment [OF assms(1) expects] Let_def so_far on_bus_def)
  have gone: "map_of ?del (rqCorr rq) = None" by (simp add: AList.delete_conv')
  have "rqCorr rq \<in> fst ` set (svAssemblies sv)" using assms(4) by (metis map_of_eq_None_iff option.distinct(1))
  then have "length ?del < length (svAssemblies sv)" by (rule length_delete_less)
  then have expects': "expects rq ?sv" and so_far': "so_far rq ?sv = []"
    using gone assms(3,6) by (simp_all add: expects_def so_far_def)
  have refusal: "refusal has_handler now2 rq (?sv\<lparr>svAssemblies := x\<rparr>) = None" for x
    using assms(10) by (subst refusal_state [of _ sv]) simp_all
  have "\<exists>sv'. handle_event has_handler stages client waits i' now2 ev2 ?sv = Some (None, [], i', sv')
      \<and> svRunning sv' = svRunning sv @ [(job_of rq (svNextFlag sv), q)]"
    using assms(8) refusal [of "AList.delete (rqCorr rq) ?del"]
    by (simp add: handle_fragment [OF assms(2) expects'] Let_def so_far' complete_def)
  then show ?thesis using first by auto
qed

lemma sink_bus_reply:
  assumes "stageID \<noteq> 0" and "mbInlineBudget client s = 100"
    and "\<And>k c p m s. mbReplyFragment client k c p m s = (None, s)"
  shows "\<exists>sent. replyModuleResult client waits kind corr stageID traceID status body i s = Some (None, sent, i, s)"
proof -
  have retry: "reply_retry client waits k c p m i s = Some (None, i, s)" for k c p m i
    by (subst reply_retry.simps) (simp add: assms(3))
  have frags: "\<exists>sent. send_frags client waits k c frs i s = Some (None, sent, i, s)" for k c frs i
    by (induction frs) (auto simp: retry)
  obtain st b where "reply_outcome status body = (st, b)" by fastforce
  from replyModuleResult_frags [OF assms(1) this, of client s] frags show ?thesis
    by (simp add: assms(2) ModuleMessageHeaderLen_def)
qed

text \<open>An assembly of exactly 16 MiB, and a client that sends one byte too many.\<close>

definition full_assembly :: moduleAssembly where
  "full_assembly = \<lparr>asEventKind = 6401, asMessage = invoke_message 5, asBody = replicate 16777216 0\<rparr>"

lemma refused_tail_is_run_witness:
  "\<exists>sent sv'. handle_events True route_stages sink_bus short_waits 0
      [(5, request_event (FRequest OR FMore) [1]), (6, request_event FRequest [2, 3])]
      (idle_state\<lparr>svAssemblies := [(9, full_assembly)]\<rparr>) = Some (None, sent, 0, sv')
   \<and> svRunning sv' = [(job_of sample_request 0, [2, 3])]"
proof -
  let ?sv = "idle_state\<lparr>svAssemblies := [(9, full_assembly)]\<rparr>"
  have frags: "is_fragment route_stages sample_request [1] True (request_event (FRequest OR FMore) [1])"
    "is_fragment route_stages sample_request [2, 3] False (request_event FRequest [2, 3])"
    by (rule request_event_fragment; simp add: ModuleMessageMaxBody_def)+
  obtain sent where sent: "replyModuleResult sink_bus short_waits 6401 9 1 7 ModuleStatusInternal [] 0 None
      = Some (None, sent, 0, None)"
    using sink_bus_reply [of 1 sink_bus None] by (force simp: sink_bus_def)
  have "belongs sample_request full_assembly"
    by (simp add: belongs_def sample_request_def full_assembly_def invoke_message_def)
  moreover have "length (asBody full_assembly) + 1 > unat ModuleMessageMaxBody"
    by (simp add: full_assembly_def ModuleMessageMaxBody_def)
  moreover have "refusal True 6 sample_request ?sv = None"
    by (simp add: refusal_def sample_request_def moduleMaxInFlight_def)
  ultimately show ?thesis
    using refused_tail_is_run [OF frags, of ?sv full_assembly sink_bus short_waits 0 sent 0 None True 6 5] sent
    by (auto simp: sample_request_def moduleMaxInFlight_def ModuleMessageMaxBody_def)
qed

section \<open>Cancellation, shutdown and safety\<close>

text \<open>C18: Cancellation. A cancel drops what has been assembled of its request and sets the flag of its job,
  if there is one: whatever the handler answers from then on, once the goroutine reads the flag the job
  reports cancelled, with no body. Nothing is sent, the tables of jobs and goroutines do not change
  and no other job is cancelled.\<close>

theorem cancel_takes_effect:
  assumes "serve_inv stages sv" and "fHdrFlags (evFrame ev) AND FCancel \<noteq> 0"
    and "corr = fCorrelationID (evFrame ev)"
  shows "\<exists>sv'. handle_event has_handler stages client waits i now ev sv = Some (None, [], i, sv')
     \<and> map_of (svAssemblies sv') corr = None \<and> svJobs sv' = svJobs sv \<and> svRunning sv' = svRunning sv
     \<and> svDone sv' = svDone sv \<and> svBus sv' = svBus sv
     \<and> (\<forall>w. map_of (svJobs sv) corr = Some w \<longrightarrow>
          (\<forall>answer now'. runHandler w answer (svFlags sv' (mwCancelled w)) now'
             = \<lparr>mrWork = w, mrBody = [], mrStatus = ModuleStatusCancelled\<rparr>))
     \<and> (\<forall>(corr', w) \<in> set (svJobs sv). corr' \<noteq> corr \<longrightarrow>
          svFlags sv' (mwCancelled w) = svFlags sv (mwCancelled w))"
proof -
  have seen: "runHandler w answer True now' = \<lparr>mrWork = w, mrBody = [], mrStatus = ModuleStatusCancelled\<rparr>"
    for w answer now'
    by (simp add: runHandler_def Let_def split: prod.split)
  let ?flags = "case map_of (svJobs sv) corr of None \<Rightarrow> svFlags sv
      | Some work \<Rightarrow> (svFlags sv)(mwCancelled work := True)"
  let ?sv = "sv\<lparr>svFlags := ?flags, svAssemblies := AList.delete corr (svAssemblies sv)\<rparr>"
  have run: "handle_event has_handler stages client waits i now ev sv = Some (None, [], i, ?sv)"
    using assms(2) by (simp add: handle_event_def Let_def assms(3))
  have other: "mwCancelled w \<noteq> mwCancelled w'"
    if "(corr', w) \<in> set (svJobs sv)" "corr' \<noteq> corr" "map_of (svJobs sv) corr = Some w'" for corr' w w'
  proof
    assume same: "mwCancelled w = mwCancelled w'"
    have "(corr, w') \<in> set (svJobs sv)" using that(3) by (rule map_of_SomeD)
    moreover have "inj_on (mwCancelled \<circ> snd) (set (svJobs sv))"
      using assms(1) by (simp add: serve_inv_def distinct_map)
    ultimately have "(corr', w) = (corr, w')"
      using that(1) same by (intro inj_onD [of "mwCancelled \<circ> snd"]) simp_all
    with that(2) show False by simp
  qed
  show ?thesis
    using run other by (intro exI [of _ ?sv]) (auto simp: seen AList.delete_conv' split: option.split)
qed

lemma cancel_takes_effect_witness:
  "\<exists>sv'. handle_event True route_stages sink_bus short_waits 0 5
       \<lparr>evFrame = zero_frame\<lparr>fHdrFlags := FCancel, fCorrelationID := 9\<rparr>, evPayload = []\<rparr> idle_state
     = Some (None, [], 0, sv') \<and> svRunning sv' = []"
proof -
  have iv: "serve_inv route_stages idle_state"
    using serve_start_inv [of route_stages None] by (simp add: idle_state_def)
  have "fHdrFlags (evFrame \<lparr>evFrame = zero_frame\<lparr>fHdrFlags := FCancel, fCorrelationID := 9\<rparr>, evPayload = []\<rparr>)
      AND FCancel \<noteq> 0"
    by (simp add: FCancel_def)
  from cancel_takes_effect [OF iv this refl, of True sink_bus short_waits 0 5] show ?thesis by auto
qed

text \<open>An event either leaves the goroutines alone and at most drops an assembly, or is a fragment that was expected.\<close>

lemma handle_event_cases:
  assumes "handle_event has_handler stages client waits i now ev sv = Some (err, sent, i', sv')"
  obtains (quiet) "svRunning sv' = svRunning sv"
      and "svAssemblies sv' \<in> {svAssemblies sv, AList.delete (fCorrelationID (evFrame ev)) (svAssemblies sv)}"
    | (fragment) rq p has_more where "is_fragment stages rq p has_more ev" and "expects rq sv"
proof -
  let ?f = "evFrame ev"
  let ?stage = "case stages (fEventKind ?f) of None \<Rightarrow> 0 | Some stage \<Rightarrow> stage"
  let ?dec = "DecodeModuleMessage (evPayload ev)"
  have bus: "svRunning sv' = svRunning sv0 \<and> svAssemblies sv' = svAssemblies sv0"
    if "on_bus sv0 r = Some (err, sent, i', sv')" for sv0 r
    using on_bus_Some [OF that] by auto
  consider (early) "fHdrFlags ?f AND FCancel \<noteq> 0 \<or> fHdrFlags ?f AND FRequest = 0 \<or> request_invalid sv ev ?stage ?dec"
    | (valid) m where "fHdrFlags ?f AND FCancel = 0" "fHdrFlags ?f AND FRequest \<noteq> 0" "?dec = Inr m"
        "\<not> request_invalid sv ev ?stage (Inr m)"
    by (cases ?dec) (auto simp: request_invalid_def)
  then show thesis
  proof cases
    case early
    then have "svRunning sv' = svRunning sv
        \<and> svAssemblies sv' \<in> {svAssemblies sv, AList.delete (fCorrelationID ?f) (svAssemblies sv)}"
      using assms by (auto simp: handle_event_def Let_def split: if_splits dest: bus)
    then show thesis by (intro quiet) simp_all
  next
    case (valid m)
    have run: "accept_fragment has_handler client waits i now ev ?stage m sv = Some (err, sent, i', sv')"
      using assms valid by (simp add: handle_event_def Let_def)
    note facts = valid_request_facts [OF valid(4)]
    define rq where "rq = \<lparr>rqKind = fEventKind ?f, rqCorr = fCorrelationID ?f, rqStage = ?stage,
        rqDeadline = mDeadlineNS m, rqTrace = mTraceID m\<rparr>"
    define p where "p = slice_at ModuleMessageHeaderLen (unat (mBodyLen m)) (evPayload ev)"
    show thesis
    proof (cases "map_of (svAssemblies sv) (fCorrelationID ?f) = None \<and> length (svAssemblies sv) \<ge> moduleMaxInFlight")
      case True
      then show thesis using run bus by (intro quiet) (auto simp: accept_fragment_def Let_def)
    next
      case False
      have "is_fragment stages rq p (fHdrFlags ?f AND FMore \<noteq> 0) ev"
        using valid facts(1-3) by (auto simp: is_fragment_def Let_def rq_def p_def split: option.splits)
      moreover have "belongs rq (this_assembly sv ev m)" using facts by (simp add: belongs_def rq_def)
      then have "expects rq sv"
        using False facts(4) by (auto simp: expects_def rq_def this_assembly_def split: option.splits)
      ultimately show thesis by (rule fragment)
    qed
  qed
qed

text \<open>C10: A handler is only ever started for a request that passed every test: a request event for a kind
  with a stage, with a valid envelope for that stage, whose last fragment this is, whose correlation has
  no job, while fewer than sixteen jobs are in flight and before its deadline, and that has the kind, the
  stage, the deadline and the trace of what was assembled before. The job gets that and the fragment, at
  most 16 MiB; nothing is sent. And what is assembled is never spliced: an assembly that an event opens or
  extends had the kind, the stage, the deadline and the trace of that event, which is a valid fragment
  with more to come, and grows by its bytes; every other assembly is one that was there before.\<close>

theorem jobs_start_only_when_valid:
  assumes "handle_event has_handler stages client waits i now ev sv = Some (err, sent, i', sv')"
  shows "(svRunning sv' \<noteq> svRunning sv \<longrightarrow>
       (\<exists>rq p body. is_fragment stages rq p False ev \<and> map_of (svJobs sv) (rqCorr rq) = None
         \<and> (\<forall>a. map_of (svAssemblies sv) (rqCorr rq) = Some a \<longrightarrow> belongs rq a)
         \<and> refusal has_handler now rq sv = None \<and> length body \<le> unat ModuleMessageMaxBody
         \<and> body = so_far rq sv @ p
         \<and> svRunning sv' = svRunning sv @ [(job_of rq (svNextFlag sv), body)]
         \<and> err = None \<and> sent = [] \<and> svBus sv' = svBus sv))
     \<and> (\<forall>corr a. map_of (svAssemblies sv') corr = Some a \<longrightarrow> map_of (svAssemblies sv) corr = Some a
         \<or> (\<exists>rq p. rqCorr rq = corr \<and> is_fragment stages rq p True ev \<and> map_of (svJobs sv) corr = None
              \<and> (\<forall>a. map_of (svAssemblies sv) corr = Some a \<longrightarrow> belongs rq a) \<and> belongs rq a
              \<and> asBody a = so_far rq sv @ p \<and> length (asBody a) \<le> unat ModuleMessageMaxBody))"
  using assms
proof (cases rule: handle_event_cases)
  case quiet
  then show ?thesis by (auto simp: AList.delete_conv' split: if_splits)
next
  case (fragment rq p has_more)
  let ?del = "sv\<lparr>svAssemblies := AList.delete (rqCorr rq) (svAssemblies sv)\<rparr>"
  have kept: "map_of (svAssemblies sv) corr = Some a" if "map_of (svAssemblies ?del) corr = Some a" for corr a
    using that by (auto simp: AList.delete_conv' split: if_splits)
  have quiet: "svRunning sv' = svRunning sv \<and> svAssemblies sv' = svAssemblies ?del"
    if "on_bus ?del r = Some (err, sent, i', sv')" for r
    using on_bus_Some [OF that] by auto
  have same: "map_of (svJobs sv) (rqCorr rq) = None" "\<forall>a. map_of (svAssemblies sv) (rqCorr rq) = Some a \<longrightarrow> belongs rq a"
    using fragment(2) by (auto simp: expects_def)
  obtain m where m: "DecodeModuleMessage (evPayload ev) = Inr m" "belongs rq (this_assembly sv ev m)"
    using fragment_facts [OF fragment] by metis
  note step = handle_fragment [OF fragment, of has_handler client waits i now, unfolded assms]
  consider "length (so_far rq sv) + length p > unat ModuleMessageMaxBody"
    | "length (so_far rq sv) + length p \<le> unat ModuleMessageMaxBody" has_more
    | "length (so_far rq sv) + length p \<le> unat ModuleMessageMaxBody" "\<not> has_more" by linarith
  then show ?thesis
  proof cases
    case 1
    then show ?thesis using step quiet kept by (auto simp: Let_def)
  next
    case 2
    let ?a = "(this_assembly sv ev m)\<lparr>asBody := so_far rq sv @ p\<rparr>"
    have sv': "sv' = sv\<lparr>svAssemblies := AList.update (rqCorr rq) ?a (svAssemblies sv)\<rparr>"
      using step 2 m(1) by (simp add: Let_def decode_message_def)
    have "belongs rq ?a" using m(2) by (simp add: belongs_def)
    then show ?thesis
      using same 2 fragment(1)
      by (auto simp: sv' update_conv' split: if_splits intro!: exI [of _ rq] exI [of _ p])
  next
    case 3
    then have run: "complete has_handler client waits i now rq (so_far rq sv @ p) ?del = Some (err, sent, i', sv')"
      using step by (simp add: Let_def)
    show ?thesis
    proof (cases "refusal has_handler now rq sv")
      case (Some status)
      then show ?thesis
        using run quiet kept refusal_state [of ?del sv] by (auto simp: complete_def)
    next
      case None
      then have "sv' = ?del\<lparr>svJobs := AList.update (rqCorr rq) (job_of rq (svNextFlag sv)) (svJobs sv),
           svRunning := svRunning sv @ [(job_of rq (svNextFlag sv), so_far rq sv @ p)],
           svFlags := (svFlags sv)(svNextFlag sv := False), svNextFlag := Suc (svNextFlag sv)\<rparr>
         \<and> err = None \<and> sent = []"
        using run refusal_state [of ?del sv] by (auto simp: complete_def Let_def)
      then show ?thesis
        using fragment(1) same 3 None kept by (auto intro!: exI [of _ rq] exI [of _ p])
    qed
  qed
qed

text \<open>The state after the only event of a one-fragment request.\<close>

lemma one_request:
  "\<exists>sv'. handle_event True route_stages client waits 0 5 (request_event FRequest [1, 2, 3]) idle_state
       = Some (None, [], 0, sv') \<and> svRunning sv' = [(job_of sample_request 0, [1, 2, 3])] \<and> svDone sv' = []
       \<and> svJobs sv' = [(9, job_of sample_request 0)]"
proof -
  have frag: "is_fragment route_stages sample_request [1, 2, 3] False (request_event FRequest [1, 2, 3])"
    by (rule request_event_fragment) (simp_all add: ModuleMessageMaxBody_def)
  have idle: "expects sample_request idle_state" "so_far rq idle_state = []" for rq
    by (simp_all add: expects_def so_far_def moduleMaxInFlight_def)
  show ?thesis
    by (simp add: handle_fragment [OF frag idle(1)] idle(2) Let_def complete_def refusal_def sample_request_def
        moduleMaxInFlight_def ModuleMessageMaxBody_def)
qed

lemma jobs_start_only_when_valid_witness:
  "\<exists>rq p. is_fragment route_stages rq p False (request_event FRequest [1, 2, 3]) \<and> so_far rq idle_state @ p = [1, 2, 3]"
proof -
  obtain sv' where sv': "handle_event True route_stages sink_bus short_waits 0 5 (request_event FRequest [1, 2, 3]) idle_state
       = Some (None, [], 0, sv')" "svRunning sv' = [(job_of sample_request 0, [1, 2, 3])]"
    using one_request by blast
  have "svRunning sv' \<noteq> svRunning idle_state" by (simp add: sv'(2))
  with jobs_start_only_when_valid [OF sv'(1)] obtain rq p body where
    "is_fragment route_stages rq p False (request_event FRequest [1, 2, 3])" "body = so_far rq idle_state @ p"
    "svRunning sv' = svRunning idle_state @ [(job_of rq (svNextFlag idle_state), body)]" by blast
  then show ?thesis using sv'(2) by auto
qed

text \<open>A run that receives that request.\<close>

lemma sample_run_any:
  assumes "client = sink_bus\<lparr>mbReplyFragment := reply\<rparr>"
  shows "\<exists>sv. (serve_step True route_stages client)\<^sup>*\<^sup>* (serve_start (Some (request_event FRequest [1, 2, 3]))) (Draining, sv)
     \<and> svRunning sv = [(job_of sample_request 0, [1, 2, 3])] \<and> svDone sv = [] \<and> svJobs sv = [(9, job_of sample_request 0)]"
proof -
  let ?ev = "request_event FRequest [1, 2, 3]"
  obtain sv' where sv': "handle_event True route_stages client short_waits 0 5 ?ev idle_state
       = Some (None, [], 0, sv')" "svRunning sv' = [(job_of sample_request 0, [1, 2, 3])]" "svDone sv' = []"
       "svJobs sv' = [(9, job_of sample_request 0)]"
    using one_request by blast
  let ?sv = "snd (serve_start (Some ?ev))"
  have idle: "?sv\<lparr>svBus := None\<rparr> = idle_state" "svBus ?sv = Some ?ev" by (simp_all add: idle_state_def serve_start_def)
  have bus: "mbEpochChanged client s = False" "mbHeartbeat client now s = s" "mbPoll client = mbPoll sink_bus" for s now
    by (simp_all add: assms sink_bus_def)
  have "poll_round True route_stages client short_waits 5 ?sv
      = after (handle_event True route_stages client short_waits 0 5 ?ev (?sv\<lparr>svBus := None\<rparr>))"
    by (simp add: poll_round_def Let_def bus idle(2)) (simp add: sink_bus_def)
  then have "poll_round True route_stages client short_waits 5 ?sv = Some (Draining, sv')"
    by (simp add: idle(1) sv'(1) after_def)
  then have "serve_step True route_stages client (Polling, ?sv) (Draining, sv')" by (rule serve_step.poll)
  moreover have "serve_step True route_stages client (serve_start (Some ?ev)) (Polling, ?sv)"
    using serve_step.drained [of ?sv True route_stages client] by (simp add: serve_start_def)
  ultimately show ?thesis
    using sv'(2-4) by (meson rtranclp.rtrancl_into_rtrancl rtranclp.rtrancl_refl)
qed

lemmas sample_run = sample_run_any [of sink_bus "mbReplyFragment sink_bus", simplified]

lemma serve_invariant_witness:
  "\<exists>sv. svRunning sv \<noteq> [] \<and> serve_inv route_stages sv \<and> length (svDone (sv :: Event option serve)) < moduleMaxInFlight"
proof -
  obtain sv where "(serve_step True route_stages sink_bus)\<^sup>*\<^sup>* (serve_start (Some (request_event FRequest [1, 2, 3])))
      (Draining, sv)" "svRunning sv = [(job_of sample_request 0, [1, 2, 3])]"
    using sample_run by blast
  from serve_invariant [OF this(1)] this(2) show ?thesis by (intro exI [of _ sv]) simp
qed

section \<open>Shutdown\<close>

inductive_cases stopping_step: "serve_step has_handler stages client (Stopping, sv) nxt"

text \<open>The work that is left once the context has ended.\<close>

definition work_left :: "'s serve \<Rightarrow> nat" where
  "work_left sv = length (svRunning sv) + length (svJobs sv)"

lemma stop_take_less:
  assumes "serve_inv stages sv" and "svDone sv = result # rest"
  shows "work_left (sv\<lparr>svDone := rest, svJobs := AList.delete (mwCorrelationID (mrWork result)) (svJobs sv)\<rparr>)
    < work_left sv"
proof -
  have "mwCorrelationID (mrWork result) \<in> fst ` set (svJobs sv)"
    using serve_inv_finish(2) [OF assms] by force
  from length_delete_less [OF this] show ?thesis by (simp add: work_left_def)
qed

lemma stopping_progress:
  assumes "serve_step has_handler stages client (Stopping, sv) (ph, sv')" and "serve_inv stages sv"
  shows "(ph = Stopped None \<and> svJobs sv = [] \<and> sv' = sv)
     \<or> (ph = Stopping \<and> (work_left sv' < work_left sv \<or> (\<exists>s. sv' = sv\<lparr>svBus := s\<rparr>)))"
  using assms(1) stop_take_less [OF assms(2)]
  by (cases rule: stopping_step) (auto simp: work_left_def)

lemma stopping_runs_out:
  assumes "serve_inv stages sv"
  shows "\<exists>sv'. (serve_step has_handler stages client)\<^sup>*\<^sup>* (Stopping, sv) (Stopped None, sv') \<and> svJobs sv' = []"
  using assms
proof (induction "work_left sv" arbitrary: sv rule: less_induct)
  case less
  have go: ?case if step: "serve_step has_handler stages client (Stopping, sv) (Stopping, sv1)"
    and "work_left sv1 < work_left sv" for sv1
    using less.hyps [OF that(2)] serve_step_inv [OF step] less.prems
      converse_rtranclp_into_rtranclp [of "serve_step has_handler stages client", OF step]
    by fastforce
  show ?case
  proof (cases "svJobs sv")
    case Nil
    then show ?thesis using serve_step.stop_end [OF Nil] by blast
  next
    case jobs: (Cons j js)
    show ?thesis
    proof (cases "svDone sv")
      case (Cons result rest)
      with serve_step.stop_take [of sv result rest] stop_take_less [OF less.prems Cons] jobs
      show ?thesis by (intro go) simp_all
    next
      case Nil
      then obtain work body behind where running: "svRunning sv = [] @ (work, body) # behind"
        using pending_bound [OF less.prems] jobs by (cases "svRunning sv") auto
      have "length (svDone sv) < moduleMaxInFlight" by (simp add: Nil moduleMaxInFlight_def)
      from serve_step.post [OF running this, of False has_handler stages client Stopping undefined 0]
      have "serve_step has_handler stages client (Stopping, sv)
          (Stopping, sv\<lparr>svRunning := behind, svDone := svDone sv @ [runHandler work undefined False 0]\<rparr>)"
        by simp
      then show ?thesis by (rule go) (simp add: work_left_def running)
    qed
  qed
qed

text \<open>C9: Shutdown. Once the context has ended, every step either leaves the loop, which happens only with no
  job left, or uses up work, or is the host touching the shared memory; and whenever jobs are left a step
  that uses up work is possible, so the loop never waits for a result that cannot come: it can always run
  on to a return without an error.\<close>

theorem stopping_ends:
  assumes "(serve_step has_handler stages client)\<^sup>*\<^sup>* (serve_start s) (Stopping, sv)"
  shows "(\<exists>sv'. (serve_step has_handler stages client)\<^sup>*\<^sup>* (Stopping, sv) (Stopped None, sv') \<and> svJobs sv' = [])
     \<and> (\<forall>ph sv'. serve_step has_handler stages client (Stopping, sv) (ph, sv') \<longrightarrow>
          (ph = Stopped None \<and> svJobs sv = [] \<and> sv' = sv)
          \<or> (ph = Stopping \<and> (work_left sv' < work_left sv \<or> (\<exists>s. sv' = sv\<lparr>svBus := s\<rparr>))))"
proof -
  have iv: "serve_inv stages sv" using serve_reachable_inv [OF assms] by simp
  from stopping_runs_out [OF iv] stopping_progress [OF _ iv] show ?thesis by blast
qed

lemma stopping_ends_witness:
  "\<exists>sv sv'. svRunning sv = [(job_of sample_request 0, [1, 2, 3])]
     \<and> (serve_step True route_stages sink_bus)\<^sup>*\<^sup>* (Stopping, sv) (Stopped None, sv') \<and> svJobs sv' = []"
proof -
  obtain sv where run: "(serve_step True route_stages sink_bus)\<^sup>*\<^sup>*
      (serve_start (Some (request_event FRequest [1, 2, 3]))) (Draining, sv)"
    and sv: "svRunning sv = [(job_of sample_request 0, [1, 2, 3])]" "svDone sv = []"
    using sample_run by blast
  note run
  also have "serve_step True route_stages sink_bus (Draining, sv) (Polling, sv)"
    using sv(2) by (rule serve_step.drained)
  also have "serve_step True route_stages sink_bus (Polling, sv) (Stopping, cancel_all sv)"
    by (rule serve_step.ctx_done)
  finally have "(serve_step True route_stages sink_bus)\<^sup>*\<^sup>*
      (serve_start (Some (request_event FRequest [1, 2, 3]))) (Stopping, cancel_all sv)" .
  from stopping_ends [OF this] obtain sv' where
    "(serve_step True route_stages sink_bus)\<^sup>*\<^sup>* (Stopping, cancel_all sv) (Stopped None, sv')" "svJobs sv' = []"
    by blast
  moreover have "svRunning (cancel_all sv) = svRunning sv" by (simp add: cancel_all_def)
  ultimately show ?thesis using sv(1) by metis
qed

text \<open>C34: The end of the context is only orderly between two rounds. When it comes while the result of a finished
  job waits for room in the outbound ring, the loop returns the error of the context at once: the other
  jobs are neither told nor waited for, although serving until the context is cancelled is what the
  process is for.\<close>

theorem interrupted_reply_fails:
  assumes "(serve_step has_handler stages client)\<^sup>*\<^sup>* (serve_start s) (Draining, sv)"
    and "svDone sv = result # rest"
    and "ModuleMessageHeaderLen < unat (mbInlineBudget client (svBus sv))"
    and "\<forall>k c p m. mbReplyFragment client k c p m (svBus sv) = (Some ErrWouldBlock, svBus sv)"
  shows "\<exists>sv'. serve_step has_handler stages client (Draining, sv) (Stopped (Some CtxErr), sv')
     \<and> svJobs sv' = AList.delete (mwCorrelationID (mrWork result)) (svJobs sv)
     \<and> svRunning sv' = svRunning sv \<and> svFlags sv' = svFlags sv"
proof -
  let ?waits = "\<lambda>_ :: nat. \<lparr>wtHost = (\<lambda>s. s), wtCtxDone = True, wtNow = 0\<rparr> :: 'a wait"
  let ?w = "mrWork result"
  let ?sv = "sv\<lparr>svDone := rest, svJobs := AList.delete (mwCorrelationID ?w) (svJobs sv)\<rparr>"
  have iv: "serve_inv stages sv" using serve_reachable_inv [OF assms(1)] by simp
  have stage: "invStageID (mwInvocation ?w) \<noteq> 0"
    using serve_inv_finish(2) [OF iv assms(2)] iv by (auto simp: serve_inv_def)
  obtain st b where out: "reply_outcome (mrStatus result) (mrBody result) = (st, b)" by fastforce
  have "reply_frags (mbInlineBudget client (svBus sv)) (invStageID (mwInvocation ?w)) (invTraceID (mwInvocation ?w)) st b \<noteq> []"
    by (simp add: reply_frags_def) (subst frag_list.simps, simp)
  moreover have "reply_retry client ?waits k c p m 0 (svBus sv) = Some (Some CtxErr, 1, svBus sv)" for k c p m
    using assms(4) by (subst reply_retry.simps) simp
  ultimately have "replyModuleResult client ?waits (mwEventKind ?w) (mwCorrelationID ?w) (invStageID (mwInvocation ?w))
      (invTraceID (mwInvocation ?w)) (mrStatus result) (mrBody result) 0 (svBus sv)
    = Some (Some CtxErr, [], 1, svBus sv)"
    unfolding replyModuleResult_frags [OF stage out assms(3)]
    by (auto simp: neq_Nil_conv)
  then have "after (finishModuleWork client ?waits 0 result (sv\<lparr>svDone := rest\<rparr>)) = Some (Stopped (Some CtxErr), ?sv)"
    by (simp add: finishModuleWork_def Let_def on_bus_def after_def)
  from serve_step.finish [OF assms(2) this] show ?thesis by (intro exI [of _ ?sv]) simp
qed

text \<open>The sample request, answered while the ring is full.\<close>

definition stuck_bus :: "Event option moduleBus" where
  "stuck_bus = sink_bus\<lparr>mbReplyFragment := (\<lambda>_ _ _ _ s. (Some ErrWouldBlock, s))\<rparr>"

lemma interrupted_reply_fails_witness:
  "\<exists>sv sv'. svRunning sv = [] \<and> serve_step True route_stages stuck_bus (Draining, sv) (Stopped (Some CtxErr), sv')
     \<and> svJobs sv' = []"
proof -
  obtain sv where run: "(serve_step True route_stages stuck_bus)\<^sup>*\<^sup>* (serve_start (Some (request_event FRequest [1, 2, 3])))
      (Draining, sv)"
    and sv: "svRunning sv = [(job_of sample_request 0, [1, 2, 3])]" "svDone sv = []" "svJobs sv = [(9, job_of sample_request 0)]"
    using sample_run_any [OF stuck_bus_def] by blast
  let ?r = "runHandler (job_of sample_request 0) ([7], ModuleStatusOK) False 6"
  let ?sv = "sv\<lparr>svRunning := [], svDone := [?r]\<rparr>"
  have "serve_step True route_stages stuck_bus (Draining, sv) (Draining, ?sv)"
    using serve_step.post [of sv "[]" "job_of sample_request 0" "[1, 2, 3]" "[]" False True route_stages stuck_bus Draining
        "([7], ModuleStatusOK)" 6] sv(1,2)
    by (simp add: moduleMaxInFlight_def)
  with run have "(serve_step True route_stages stuck_bus)\<^sup>*\<^sup>* (serve_start (Some (request_event FRequest [1, 2, 3]))) (Draining, ?sv)"
    by (rule rtranclp.rtrancl_into_rtrancl)
  moreover have "mwCorrelationID (mrWork ?r) = 9"
    by (simp add: runHandler_eq Let_def job_of_def sample_request_def)
  moreover have "ModuleMessageHeaderLen < unat (mbInlineBudget stuck_bus (svBus ?sv))"
    "\<forall>k c p m. mbReplyFragment stuck_bus k c p m (svBus ?sv) = (Some ErrWouldBlock, svBus ?sv)"
    by (simp_all add: stuck_bus_def sink_bus_def ModuleMessageHeaderLen_def)
  ultimately obtain sv' where "serve_step True route_stages stuck_bus (Draining, ?sv) (Stopped (Some CtxErr), sv')"
    "svJobs sv' = AList.delete (mwCorrelationID (mrWork ?r)) (svJobs ?sv)"
    using interrupted_reply_fails [of True route_stages stuck_bus "Some (request_event FRequest [1, 2, 3])" ?sv ?r "[]"]
    by auto
  then show ?thesis
    using sv(3) \<open>mwCorrelationID (mrWork ?r) = 9\<close> by (intro exI [of _ ?sv] exI [of _ sv']) simp
qed

end
