(* ===== verification/Overload.thy ===== *)
theory Overload
  imports Runtime
begin

text \<open>
  What requests that are never finished do to the serving runtime of \<open>server-go/bus/module_runtime.go\<close>:
  an assembly is dropped only by its last fragment, a cancel or an invalid event of its own
  correlation, so the assemblies of abandoned requests stay, and when they fill the table every new
  request is refused.
\<close>

unbundle bit_operations_syntax

section \<open>Abandoned requests\<close>

text \<open>The events of a request of which the last fragment is missing.\<close>

record abandoned_request =
  abRequest :: request
  abParts :: "(byte list \<times> bool) list"
  abEvents :: "(u64 \<times> Event) list"

definition abandoned :: "(u32 \<rightharpoonup> u32) \<Rightarrow> abandoned_request \<Rightarrow> bool" where
  "abandoned stages ab \<longleftrightarrow>
     list_all2 (\<lambda>(p, m) (now, ev). is_fragment stages (abRequest ab) p m ev) (abParts ab) (abEvents ab)
     \<and> abParts ab \<noteq> [] \<and> (\<forall>y\<in>set (abParts ab). snd y)
     \<and> length (concat (map fst (abParts ab))) \<le> unat ModuleMessageMaxBody"

lemma handle_events_append:
  "handle_events has_handler stages client waits i (xs @ ys) sv =
    Option.bind (handle_events has_handler stages client waits i xs sv)
      (\<lambda>(err, sent, i, sv). case err of
         Some err \<Rightarrow> Some (Some err, sent, i, sv)
       | None \<Rightarrow> Option.bind (handle_events has_handler stages client waits i ys sv)
           (\<lambda>(err, sent', i, sv). Some (err, sent @ sent', i, sv)))"
proof (induction xs arbitrary: i sv)
  case Nil
  then show ?case by (cases "handle_events has_handler stages client waits i ys sv") auto
next
  case (Cons x xs)
  obtain now ev where x: "x = (now, ev)" by fastforce
  show ?case
    by (cases "handle_event has_handler stages client waits i now ev sv")
      (auto simp: x Cons.IH bind_eq_Some_conv split: option.split intro!: bind_option_cong [OF refl]
        simp: Option.bind_assoc)
qed

lemma gather_fragments:
  assumes "list_all2 (\<lambda>(p, m) (now, ev). is_fragment stages rq p m ev) parts evs"
    and "\<forall>y\<in>set parts. snd y" and "expects rq sv" and "parts \<noteq> []"
    and "length (so_far rq sv) + length (concat (map fst parts)) \<le> unat ModuleMessageMaxBody"
  shows "\<exists>a. handle_events has_handler stages client waits i evs sv =
      Some (None, [], i, sv\<lparr>svAssemblies := AList.update (rqCorr rq) a (svAssemblies sv)\<rparr>)
     \<and> belongs rq a \<and> asBody a = so_far rq sv @ concat (map fst parts)"
  using assms
proof (induction parts arbitrary: evs sv)
  case (Cons y ys)
  obtain q where y: "y = (q, True)" using Cons.prems(2) by (cases y) auto
  obtain now ev evs' where evs: "evs = (now, ev) # evs'" "is_fragment stages rq q True ev"
    and rest: "list_all2 (\<lambda>(p, m) (now, ev). is_fragment stages rq p m ev) ys evs'"
    using Cons.prems(1) y by (auto simp: list_all2_Cons1)
  obtain m where m: "DecodeModuleMessage (evPayload ev) = Inr m" "belongs rq (this_assembly sv ev m)"
    using fragment_facts [OF evs(2) Cons.prems(3)] by metis
  then have the_m: "the (decode_message (evPayload ev)) = m" by (simp add: decode_message_def)
  let ?a = "(this_assembly sv ev m)\<lparr>asBody := so_far rq sv @ q\<rparr>"
  let ?sv = "sv\<lparr>svAssemblies := AList.update (rqCorr rq) ?a (svAssemblies sv)\<rparr>"
  have small: "length (so_far rq sv) + length q \<le> unat ModuleMessageMaxBody"
    using Cons.prems(5) y by simp
  have step: "handle_event has_handler stages client waits i now ev sv = Some (None, [], i, ?sv)"
    using small by (simp add: handle_fragment [OF evs(2) Cons.prems(3)] Let_def the_m)
  have a: "belongs rq ?a" using m(2) by (simp add: belongs_def)
  show ?case
  proof (cases "ys = []")
    case True
    then have "evs' = []" using rest by simp
    then show ?thesis using True a step y by (auto simp: evs(1))
  next
    case False
    have "length (so_far rq ?sv) + length (concat (map fst ys)) \<le> unat ModuleMessageMaxBody"
      using Cons.prems(5) y by simp
    then obtain a' where a': "handle_events has_handler stages client waits i evs' ?sv =
        Some (None, [], i, ?sv\<lparr>svAssemblies := AList.update (rqCorr rq) a' (svAssemblies ?sv)\<rparr>)"
      "belongs rq a'" "asBody a' = so_far rq ?sv @ concat (map fst ys)"
      using Cons.IH [OF rest _ expects_update [OF Cons.prems(3) a] False] Cons.prems(2) by auto
    have "AList.update (rqCorr rq) a' (AList.update (rqCorr rq) ?a (svAssemblies sv))
        = AList.update (rqCorr rq) a' (svAssemblies sv)"
      by (induction "svAssemblies sv") auto
    then show ?thesis using a' step y by (auto simp: evs(1))
  qed
qed simp

text \<open>One abandoned request takes one place of the table for good.\<close>

lemma abandoned_takes_place:
  assumes "abandoned stages ab" and "map_of (svJobs sv) (rqCorr (abRequest ab)) = None"
    and "rqCorr (abRequest ab) \<notin> fst ` set (svAssemblies sv)" and "length (svAssemblies sv) < moduleMaxInFlight"
  shows "\<exists>a. handle_events has_handler stages client waits i (abEvents ab) sv =
      Some (None, [], i, sv\<lparr>svAssemblies := svAssemblies sv @ [(rqCorr (abRequest ab), a)]\<rparr>)
     \<and> belongs (abRequest ab) a \<and> asBody a = concat (map fst (abParts ab))"
proof -
  have none: "map_of (svAssemblies sv) (rqCorr (abRequest ab)) = None"
    using assms(3) by (simp add: map_of_eq_None_iff)
  then have "expects (abRequest ab) sv" "so_far (abRequest ab) sv = []"
    using assms(2,4) by (simp_all add: expects_def so_far_def)
  then show ?thesis
    using gather_fragments [of stages "abRequest ab" "abParts ab" "abEvents ab" sv has_handler client waits i] assms(1)
    by (simp add: abandoned_def update_new [OF assms(3)])
qed

lemma abandoned_list_takes_places:
  assumes "\<forall>ab\<in>set lost. abandoned stages ab" and "distinct (map (rqCorr \<circ> abRequest) lost)"
    and "\<forall>ab\<in>set lost. map_of (svJobs sv) (rqCorr (abRequest ab)) = None
           \<and> rqCorr (abRequest ab) \<notin> fst ` set (svAssemblies sv)"
    and "length (svAssemblies sv) + length lost \<le> moduleMaxInFlight"
  shows "\<exists>as. handle_events has_handler stages client waits i (concat (map abEvents lost)) sv =
      Some (None, [], i, sv\<lparr>svAssemblies := svAssemblies sv @ as\<rparr>)
     \<and> map fst as = map (rqCorr \<circ> abRequest) lost
     \<and> list_all2 (\<lambda>ab (_, a). belongs (abRequest ab) a \<and> asBody a = concat (map fst (abParts ab))) lost as"
  using assms
proof (induction lost arbitrary: sv)
  case (Cons ab lost)
  obtain a where a: "handle_events has_handler stages client waits i (abEvents ab) sv =
      Some (None, [], i, sv\<lparr>svAssemblies := svAssemblies sv @ [(rqCorr (abRequest ab), a)]\<rparr>)"
    "belongs (abRequest ab) a" "asBody a = concat (map fst (abParts ab))"
    using abandoned_takes_place [of stages ab sv has_handler client waits i] Cons.prems by auto
  let ?sv = "sv\<lparr>svAssemblies := svAssemblies sv @ [(rqCorr (abRequest ab), a)]\<rparr>"
  obtain as where as: "handle_events has_handler stages client waits i (concat (map abEvents lost)) ?sv =
      Some (None, [], i, ?sv\<lparr>svAssemblies := svAssemblies ?sv @ as\<rparr>)"
    "map fst as = map (rqCorr \<circ> abRequest) lost"
    "list_all2 (\<lambda>ab (_, a). belongs (abRequest ab) a \<and> asBody a = concat (map fst (abParts ab))) lost as"
  proof -
    have "\<forall>ab'\<in>set lost. rqCorr (abRequest ab') \<noteq> rqCorr (abRequest ab)"
      using Cons.prems(2) by (auto simp: image_iff)
    then show ?thesis using Cons.IH [of ?sv] Cons.prems that by auto
  qed
  then show ?case
    using a by (intro exI [of _ "(rqCorr (abRequest ab), a) # as"]) (simp add: handle_events_append)
qed simp

lemma full_table_refuses:
  assumes "is_fragment stages rq p has_more ev" and "map_of (svJobs sv) (rqCorr rq) = None"
    and "map_of (svAssemblies sv) (rqCorr rq) = None" and "length (svAssemblies sv) \<ge> moduleMaxInFlight"
  shows "handle_event has_handler stages client waits i now ev sv =
    on_bus sv (replyModuleResult client waits (rqKind rq) (rqCorr rq) (rqStage rq) (rqTrace rq)
      ModuleStatusInternal [] i (svBus sv))"
proof -
  obtain m where m: "DecodeModuleMessage (evPayload ev) = Inr m" "mTraceID m = rqTrace rq"
    using assms(1) by (auto simp: is_fragment_def Let_def split: sum.splits)
  have "\<not> request_invalid sv ev (rqStage rq) (Inr m)"
    using assms m by (auto simp: is_fragment_def Let_def request_invalid_def)
  then show ?thesis
    using assms m by (simp add: handle_event_def is_fragment_def accept_fragment_def Let_def)
qed

text \<open>C31: Requests that are abandoned before their last fragment fill the table of assemblies: nothing is sent
  for them, each keeps its place with what it had, and when there are sixteen of them every other
  request, whatever its caller, is answered with an internal error at its first fragment and leaves
  the table as it is.\<close>

theorem abandoned_requests_block:
  assumes "\<forall>ab\<in>set lost. abandoned stages ab" and "distinct (map (rqCorr \<circ> abRequest) lost)"
    and "length lost = moduleMaxInFlight" and "svAssemblies sv = []"
    and "\<forall>ab\<in>set lost. map_of (svJobs sv) (rqCorr (abRequest ab)) = None"
  shows "\<exists>sv'. handle_events has_handler stages client waits i (concat (map abEvents lost)) sv = Some (None, [], i, sv')
     \<and> svJobs sv' = svJobs sv \<and> svBus sv' = svBus sv
     \<and> (\<forall>rq p has_more now ev. is_fragment stages rq p has_more ev \<longrightarrow> map_of (svJobs sv) (rqCorr rq) = None
          \<longrightarrow> rqCorr rq \<notin> (rqCorr \<circ> abRequest) ` set lost \<longrightarrow>
          handle_event has_handler stages client waits i now ev sv' =
            on_bus sv' (replyModuleResult client waits (rqKind rq) (rqCorr rq) (rqStage rq) (rqTrace rq)
              ModuleStatusInternal [] i (svBus sv')))"
proof -
  obtain as where as: "handle_events has_handler stages client waits i (concat (map abEvents lost)) sv =
      Some (None, [], i, sv\<lparr>svAssemblies := as\<rparr>)"
    "map fst as = map (rqCorr \<circ> abRequest) lost"
    using abandoned_list_takes_places [OF assms(1,2), of sv has_handler client waits i] assms(3-5) by auto
  have "length as = moduleMaxInFlight" using as(2) assms(3) by (metis length_map)
  moreover have "map_of as k = None" if "k \<notin> (rqCorr \<circ> abRequest) ` set lost" for k
    using that as(2) by (metis image_set map_of_eq_None_iff)
  ultimately show ?thesis
    using as(1) full_table_refuses [of stages _ _ _ _ "sv\<lparr>svAssemblies := as\<rparr>" has_handler client waits i] by auto
qed

text \<open>Sixteen requests whose callers sent one fragment each and then gave up.\<close>

definition half_request :: "u64 \<Rightarrow> abandoned_request" where
  "half_request corr = \<lparr>abRequest = sample_request\<lparr>rqCorr := corr\<rparr>, abParts = [([1], True)],
     abEvents = [(5, (request_event (FRequest OR FMore) [1])\<lparr>evFrame := (evFrame (request_event (FRequest OR FMore) [1]))
        \<lparr>fCorrelationID := corr\<rparr>\<rparr>)]\<rparr>"

lemma is_fragment_corr:
  "is_fragment stages rq p has_more ev \<Longrightarrow>
     is_fragment stages (rq\<lparr>rqCorr := k\<rparr>) p has_more (ev\<lparr>evFrame := (evFrame ev)\<lparr>fCorrelationID := k\<rparr>\<rparr>)"
  by (auto simp: is_fragment_def Let_def split: sum.splits)

lemma half_request_abandoned: "abandoned route_stages (half_request corr)"
proof -
  have "is_fragment route_stages sample_request [1] True (request_event (FRequest OR FMore) [1])"
    by (rule request_event_fragment) (simp_all add: ModuleMessageMaxBody_def)
  from is_fragment_corr [OF this, of corr] show ?thesis
    by (simp add: abandoned_def half_request_def ModuleMessageMaxBody_def)
qed

lemma abandoned_requests_block_witness:
  "\<exists>sv'. handle_events True route_stages sink_bus short_waits 0 (concat (map (abEvents \<circ> half_request) [101, 102, 103, 104,
      105, 106, 107, 108, 109, 110, 111, 112, 113, 114, 115, 116])) idle_state = Some (None, [], 0, sv')
   \<and> handle_event True route_stages sink_bus short_waits 0 7 (request_event FRequest [1, 2, 3]) sv' =
      on_bus sv' (replyModuleResult sink_bus short_waits 6401 9 1 7 ModuleStatusInternal [] 0 (svBus sv'))"
proof -
  let ?corrs = "[101, 102, 103, 104, 105, 106, 107, 108, 109, 110, 111, 112, 113, 114, 115, 116] :: u64 list"
  let ?lost = "map half_request ?corrs"
  have corr: "rqCorr (abRequest (half_request k)) = k" for k by (simp add: half_request_def)
  then have corrs: "map (rqCorr \<circ> abRequest) ?lost = ?corrs" by simp
  then have "distinct (map (rqCorr \<circ> abRequest) ?lost)" by (simp only:) simp
  moreover have "\<forall>ab\<in>set ?lost. abandoned route_stages ab"
    "\<forall>ab\<in>set ?lost. map_of (svJobs idle_state) (rqCorr (abRequest ab)) = None"
    by (simp_all add: half_request_abandoned)
  moreover have "length ?lost = moduleMaxInFlight" by (simp add: moduleMaxInFlight_def)
  ultimately obtain sv' where sv': "handle_events True route_stages sink_bus short_waits 0 (concat (map abEvents ?lost)) idle_state
      = Some (None, [], 0, sv')"
    "\<forall>rq p has_more now ev. is_fragment route_stages rq p has_more ev \<longrightarrow> map_of (svJobs idle_state) (rqCorr rq) = None
          \<longrightarrow> rqCorr rq \<notin> (rqCorr \<circ> abRequest) ` set ?lost \<longrightarrow>
          handle_event True route_stages sink_bus short_waits 0 now ev sv' =
            on_bus sv' (replyModuleResult sink_bus short_waits (rqKind rq) (rqCorr rq) (rqStage rq) (rqTrace rq)
              ModuleStatusInternal [] 0 (svBus sv'))"
    using abandoned_requests_block [of ?lost route_stages idle_state True sink_bus short_waits 0] by auto
  have "is_fragment route_stages sample_request [1, 2, 3] False (request_event FRequest [1, 2, 3])"
    by (rule request_event_fragment) (simp_all add: ModuleMessageMaxBody_def)
  moreover have "rqCorr sample_request \<notin> (rqCorr \<circ> abRequest) ` set ?lost"
    by (simp add: corr sample_request_def)
  ultimately have "handle_event True route_stages sink_bus short_waits 0 7 (request_event FRequest [1, 2, 3]) sv' =
      on_bus sv' (replyModuleResult sink_bus short_waits 6401 9 1 7 ModuleStatusInternal [] 0 (svBus sv'))"
    using sv'(2) by (simp add: sample_request_def)
  with sv'(1) show ?thesis by (intro exI [of _ sv']) (simp only: list.map comp_apply)
qed

end
