(* ===== verification/Inbound.thy ===== *)
theory Inbound
  imports Bus
begin

text \<open>
  The receiving side of a bus as an interface: a source of events that a poll takes from the front.
  The client is an interpretation as long as every slot it has still to read holds a valid frame
  whose payload lies in the slot.
\<close>

section \<open>An ordered source of events\<close>

text \<open>
  \<open>incoming\<close> is what is still to be read, in order; \<open>later\<close> relates a state to those the other
  side and this one can reach from it without sending.
\<close>

locale event_source =
  fixes poll :: "'s \<Rightarrow> pollResult \<times> 's"
    and ok :: "'s \<Rightarrow> bool"
    and incoming :: "'s \<Rightarrow> Event list"
    and later :: "'s \<Rightarrow> 's \<Rightarrow> bool"
  assumes takes: "ok s \<Longrightarrow> incoming s = ev # rest \<Longrightarrow> poll s = (res, s') \<Longrightarrow>
      res = PollEvent ev \<and> ok s' \<and> incoming s' = rest \<and> later s s'"
    and none_left: "ok s \<Longrightarrow> incoming s = [] \<Longrightarrow> poll s = (res, s') \<Longrightarrow>
      res = PollNone \<and> ok s' \<and> incoming s' = [] \<and> later s s'"
    and later_refl: "later s s"
    and later_trans: "later s t \<Longrightarrow> later t u \<Longrightarrow> later s u"
begin

text \<open>What the other side may do between two polls: add events behind those that are there.\<close>

definition host_feeds :: "('s \<Rightarrow> 's) \<Rightarrow> bool" where
  "host_feeds h \<longleftrightarrow> (\<forall>s. ok s \<longrightarrow> ok (h s) \<and> later s (h s) \<and> (\<exists>new. incoming (h s) = incoming s @ new))"

definition host_quiet :: "('s \<Rightarrow> 's) \<Rightarrow> bool" where
  "host_quiet h \<longleftrightarrow> (\<forall>s. ok s \<longrightarrow> incoming (h s) = incoming s)"

lemma fed_poll:
  assumes "ok s" and "host_feeds h" and "incoming s = ev # rest"
  obtains s' new where "poll (h s) = (PollEvent ev, s')" and "ok s'" and "incoming s' = rest @ new" and "later s s'"
proof -
  obtain new where h: "ok (h s)" "later s (h s)" "incoming (h s) = ev # (rest @ new)"
    using assms by (auto simp: host_feeds_def)
  obtain res s' where run: "poll (h s) = (res, s')" by fastforce
  from takes [OF h(1,3) run] run show thesis
    using that later_trans [OF h(2)] by auto
qed

end

section \<open>The client as a source\<close>

text \<open>The slots that a client has still to read are those of a host that keeps to the protocol.\<close>

definition well_fed :: "client_state \<Rightarrow> bool" where
  "well_fed s = (case s of (c, m) \<Rightarrow> client_inv c m \<and> \<not> Client_EpochChanged c m
     \<and> (\<forall>item\<in>set (unread c m). slot_event (cSlotSize c) item \<noteq> None \<and> \<not> slot_wraps (cSlotSize c) item))"

definition client_incoming :: "client_state \<Rightarrow> Event list" where
  "client_incoming s = (case s of (c, m) \<Rightarrow> map (the \<circ> slot_event (cSlotSize c)) (unread c m))"

definition client_later :: "client_state \<Rightarrow> client_state \<Rightarrow> bool" where
  "client_later s t \<longleftrightarrow> (\<exists>b. fst t = (fst s)\<lparr>cPendingRead := b\<rparr>)
     \<and> (\<exists>k. client_stream t = drop k (client_stream s))"

lemma client_later_pending:
  assumes "client_later s t"
  shows "fragment_event flag t = fragment_event flag s" and "cSlotSize (fst t) = cSlotSize (fst s)"
    and "cInlineBudget (fst t) = cInlineBudget (fst s)" and "emit_frame (fst t) = emit_frame (fst s)"
proof -
  obtain b where t: "fst t = (fst s)\<lparr>cPendingRead := b\<rparr>" using assms by (auto simp: client_later_def)
  show "cSlotSize (fst t) = cSlotSize (fst s)" "cInlineBudget (fst t) = cInlineBudget (fst s)" by (simp_all add: t)
  show frame: "emit_frame (fst t) = emit_frame (fst s)"
    by (simp add: t emit_frame_def fun_eq_iff)
  show "fragment_event flag t = fragment_event flag s"
    by (simp add: fragment_event_def fun_eq_iff frame)
qed

lemma client_poll:
  assumes "well_fed s" and "cbPoll client_caller_bus s = (res, s')"
  shows "well_fed s' \<and> client_later s s' \<and> client_incoming s' = tl (client_incoming s)
     \<and> res = (case client_incoming s of [] \<Rightarrow> PollNone | ev # _ \<Rightarrow> PollEvent ev)"
proof -
  obtain c m where s: "s = (c, m)" by fastforce
  obtain c' m' where s': "s' = (c', m')" and run: "Poll c m = (res, c', m')"
    using assms(2) by (cases s') (auto simp: s client_caller_bus_def split: prod.splits)
  have iv: "client_inv c m" "\<not> Client_EpochChanged c m"
    and good: "\<forall>item\<in>set (unread c m). slot_event (cSlotSize c) item \<noteq> None \<and> \<not> slot_wraps (cSlotSize c) item"
    using assms(1) by (simp_all add: well_fed_def s)
  note cases = Poll_cases [OF iv run]
  have c': "c' = c\<lparr>cPendingRead := cPendingRead c'\<rparr>" using cases by blast
  have same: "cSlotSize c' = cSlotSize c" "cControl c' = cControl c" "cAttachedEpoch c' = cAttachedEpoch c"
    by (subst c', simp)+
  have "Client_EpochChanged c' m' \<longleftrightarrow> Client_EpochChanged c m"
    using cases by (simp add: Client_EpochChanged_def same)
  moreover have "unread c' m' = tl (unread c m)
      \<and> res = (case client_incoming s of [] \<Rightarrow> PollNone | ev # _ \<Rightarrow> PollEvent ev)"
    using cases good by (cases "unread c m") (auto simp: client_incoming_def s split: if_splits)
  moreover have "client_later s s'"
  proof -
    have "client_stream s' = client_stream s"
      using cases by (simp add: client_stream_def s s' same)
    then show ?thesis using c' by (auto simp: client_later_def s s' intro!: exI [of _ 0])
  qed
  moreover have "set (tl (unread c m)) \<subseteq> set (unread c m)" by (cases "unread c m") auto
  ultimately show ?thesis
    using conjunct1 [OF cases] good iv(2)
    by (simp add: well_fed_def client_incoming_def s s' same map_tl subset_iff)
qed

interpretation client_events: event_source "cbPoll client_caller_bus" well_fed client_incoming client_later
proof unfold_locales
  show "res = PollEvent ev \<and> well_fed s' \<and> client_incoming s' = rest \<and> client_later s s'"
    if "well_fed s" "client_incoming s = ev # rest" "cbPoll client_caller_bus s = (res, s')" for s s' ev rest res
    using client_poll [OF that(1,3)] that(2) by simp
  show "res = PollNone \<and> well_fed s' \<and> client_incoming s' = [] \<and> client_later s s'"
    if "well_fed s" "client_incoming s = []" "cbPoll client_caller_bus s = (res, s')" for s s' res
    using client_poll [OF that(1,3)] that(2) by simp
  show "client_later s s" for s
    by (auto simp: client_later_def intro: exI [of _ "cPendingRead (fst s)"] exI [of _ 0])
  show "client_later s u" if "client_later s t" "client_later t u" for s t u
    using that by (auto simp: client_later_def drop_drop)
qed

text \<open>Sending does not disturb what is still to be read.\<close>

lemma send_well_fed:
  assumes "well_fed (c, m)" and "client_ok c m'" and "inbound c m' = inbound c m" and "bmCtl m' = bmCtl m"
  shows "well_fed (c, m') \<and> client_incoming (c, m') = client_incoming (c, m)"
  using assms by (auto simp: well_fed_def client_inv_def unread_def client_incoming_def Client_EpochChanged_def)

end
