(* ===== verification/Loop.thy ===== *)
theory Loop
  imports Runtime Inbound
begin

text \<open>
  The main loop of \<open>server-go/bus/module_runtime.go\<close> over a real client: a round takes the next event of
  the inbound ring and handles it, so a request whose fragments are in the ring becomes a job by steps
  of the loop itself.
\<close>

unbundle bit_operations_syntax

section \<open>One round\<close>

lemma beat_well_fed:
  assumes "well_fed s"
  shows "well_fed (mbHeartbeat client_module_bus now s)"
    and "client_incoming (mbHeartbeat client_module_bus now s) = client_incoming s"
    and "client_stream (mbHeartbeat client_module_bus now s) = client_stream s"
proof -
  obtain c m where s: "s = (c, m)" by fastforce
  have ok: "client_ok c m" using assms by (simp add: s well_fed_def client_inv_def)
  note frame = client_beat_frame [OF ok, of now]
  show "well_fed (mbHeartbeat client_module_bus now s)"
    "client_incoming (mbHeartbeat client_module_bus now s) = client_incoming s"
    using send_well_fed [of c m "client_beat now m"] assms frame by (simp_all add: s client_module_bus_def)
  show "client_stream (mbHeartbeat client_module_bus now s) = client_stream s"
    using frame by (simp add: s client_module_bus_def client_stream_def)
qed

lemma same_poll: "mbPoll client_module_bus = cbPoll client_caller_bus"
  by (simp add: client_module_bus_def client_caller_bus_def)

lemma client_poll_stream:
  assumes "well_fed s" and "cbPoll client_caller_bus s = (res, s')"
  shows "client_stream s' = client_stream s"
proof -
  obtain c m c' m' where s: "s = (c, m)" "s' = (c', m')" by (metis surj_pair)
  have run: "Poll c m = (res, c', m')"
    using assms(2) by (simp add: s client_caller_bus_def split: prod.splits)
  have iv: "client_inv c m" "\<not> Client_EpochChanged c m" using assms(1) by (simp_all add: s well_fed_def)
  have "outbound c' m' = outbound c m" and c': "c' = c\<lparr>cPendingRead := cPendingRead c'\<rparr>"
    using Poll_cases [OF iv run] by blast+
  moreover have "cSlotSize c' = cSlotSize c" by (subst c') simp
  ultimately show ?thesis by (simp add: s client_stream_def)
qed

lemma poll_round_event:
  assumes "well_fed (svBus sv)" and "client_incoming (svBus sv) = ev # rest"
  shows "\<exists>s. well_fed s \<and> client_incoming s = rest \<and> client_stream s = client_stream (svBus sv)
     \<and> poll_round has_handler stages client_module_bus waits now sv
       = after (handle_event has_handler stages client_module_bus waits 0 now ev (sv\<lparr>svBus := s\<rparr>))"
proof -
  define s0 where "s0 = (if now \<noteq> 0 then mbHeartbeat client_module_bus now (svBus sv) else svBus sv)"
  have s0: "well_fed s0" "client_incoming s0 = ev # rest" "client_stream s0 = client_stream (svBus sv)"
    using assms beat_well_fed [OF assms(1), of now] by (simp_all add: s0_def)
  obtain res s where poll: "cbPoll client_caller_bus s0 = (res, s)" by (metis surj_pair)
  have "\<not> mbEpochChanged client_module_bus (svBus sv)"
    using assms(1) by (cases "svBus sv") (simp add: well_fed_def client_module_bus_def)
  moreover have "(if now \<noteq> 0 then sv\<lparr>svBus := mbHeartbeat client_module_bus now (svBus sv)\<rparr> else sv) = sv\<lparr>svBus := s0\<rparr>"
    by (simp add: s0_def)
  ultimately show ?thesis
    using client_poll [OF s0(1) poll] client_poll_stream [OF s0(1) poll] s0 poll
    by (intro exI [of _ s]) (simp add: poll_round_def Let_def same_poll)
qed

lemma loop_event:
  assumes "svDone sv = []" and "well_fed (svBus sv)" and "client_incoming (svBus sv) = ev # rest"
    and "\<And>s. handle_event has_handler stages client_module_bus (waits :: nat \<Rightarrow> client_state wait) 0 now ev (sv\<lparr>svBus := s\<rparr>)
      = Some (None, [], 0, sv'\<lparr>svBus := s\<rparr>)"
  shows "\<exists>s. (serve_step has_handler stages client_module_bus)\<^sup>*\<^sup>* (Draining, sv) (Draining, sv'\<lparr>svBus := s\<rparr>)
     \<and> well_fed s \<and> client_incoming s = rest \<and> client_stream s = client_stream (svBus sv)"
proof -
  obtain s where s: "well_fed s" "client_incoming s = rest" "client_stream s = client_stream (svBus sv)"
    and round: "poll_round has_handler stages client_module_bus waits now sv
       = after (handle_event has_handler stages client_module_bus waits 0 now ev (sv\<lparr>svBus := s\<rparr>))"
    using poll_round_event [OF assms(2,3)] by blast
  have "serve_step has_handler stages client_module_bus (Draining, sv) (Polling, sv)"
    using assms(1) by (rule serve_step.drained)
  moreover have "serve_step has_handler stages client_module_bus (Polling, sv) (Draining, sv'\<lparr>svBus := s\<rparr>)"
    by (rule serve_step.poll [of _ _ _ waits now]) (simp add: round assms(4) after_def)
  ultimately have "(serve_step has_handler stages client_module_bus)\<^sup>*\<^sup>* (Draining, sv) (Draining, sv'\<lparr>svBus := s\<rparr>)"
    by (rule converse_rtranclp_into_rtranclp [OF _ r_into_rtranclp])
  with s show ?thesis by (intro exI [of _ s]) simp
qed

section \<open>A request in the ring\<close>

lemma bus_irrelevant [simp]:
  "so_far rq (sv\<lparr>svBus := s\<rparr>) = so_far rq sv" "expects rq (sv\<lparr>svBus := s\<rparr>) = expects rq sv"
  "this_assembly (sv\<lparr>svBus := s\<rparr>) ev m = this_assembly sv ev m"
  "refusal has_handler now rq (sv\<lparr>svBus := s\<rparr>) = refusal has_handler now rq sv"
  by (simp_all add: so_far_def expects_def this_assembly_def refusal_def cong: option.case_cong)

definition started :: "request \<Rightarrow> byte list \<Rightarrow> 's serve \<Rightarrow> 's serve" where
  "started rq body sv = sv\<lparr>svAssemblies := AList.delete (rqCorr rq) (svAssemblies sv),
     svJobs := AList.update (rqCorr rq) (job_of rq (svNextFlag sv)) (svJobs sv),
     svRunning := svRunning sv @ [(job_of rq (svNextFlag sv), body)],
     svFlags := (svFlags sv)(svNextFlag sv := False), svNextFlag := Suc (svNextFlag sv)\<rparr>"

lemma loop_gathers:
  assumes "is_fragment stages rq q True ev" and "expects rq sv"
    and "length (so_far rq sv) + length q \<le> unat ModuleMessageMaxBody"
    and "svDone sv = []" and "well_fed (svBus sv)" and "client_incoming (svBus sv) = ev # rest"
  shows "\<exists>a s. (serve_step has_handler stages client_module_bus)\<^sup>*\<^sup>* (Draining, sv)
       (Draining, sv\<lparr>svAssemblies := AList.update (rqCorr rq) a (svAssemblies sv), svBus := s\<rparr>)
     \<and> belongs rq a \<and> asBody a = so_far rq sv @ q
     \<and> well_fed s \<and> client_incoming s = rest \<and> client_stream s = client_stream (svBus sv)"
proof -
  obtain m where m: "DecodeModuleMessage (evPayload ev) = Inr m" "belongs rq (this_assembly sv ev m)"
    using fragment_facts [OF assms(1,2)] by metis
  then have the_m: "the (decode_message (evPayload ev)) = m" by (simp add: decode_message_def)
  let ?a = "(this_assembly sv ev m)\<lparr>asBody := so_far rq sv @ q\<rparr>"
  have "handle_event has_handler stages client_module_bus (short_waits :: nat \<Rightarrow> client_state wait) 0 5 ev (sv\<lparr>svBus := s\<rparr>)
      = Some (None, [], 0, (sv\<lparr>svAssemblies := AList.update (rqCorr rq) ?a (svAssemblies sv)\<rparr>)\<lparr>svBus := s\<rparr>)" for s
    using assms(2,3) by (simp add: handle_fragment [OF assms(1)] Let_def the_m)
  from loop_event [OF assms(4-6) this] m(2) show ?thesis
    by (intro exI [of _ ?a]) (simp add: belongs_def)
qed

lemma loop_completes:
  assumes "is_fragment stages rq q False ev" and "expects rq sv"
    and "length (so_far rq sv) + length q \<le> unat ModuleMessageMaxBody"
    and "svDone sv = []" and "well_fed (svBus sv)" and "client_incoming (svBus sv) = ev # rest"
    and "refusal has_handler now rq sv = None"
  shows "\<exists>s. (serve_step has_handler stages client_module_bus)\<^sup>*\<^sup>* (Draining, sv)
       (Draining, (started rq (so_far rq sv @ q) sv)\<lparr>svBus := s\<rparr>)
     \<and> well_fed s \<and> client_incoming s = rest \<and> client_stream s = client_stream (svBus sv)"
proof -
  have none: "refusal has_handler now rq (sv\<lparr>svBus := s, svAssemblies := x\<rparr>) = None" for s x
    using assms(7) by (subst refusal_state [of _ sv]) simp_all
  have "handle_event has_handler stages client_module_bus (short_waits :: nat \<Rightarrow> client_state wait) 0 now ev (sv\<lparr>svBus := s\<rparr>)
      = Some (None, [], 0, (started rq (so_far rq sv @ q) sv)\<lparr>svBus := s\<rparr>)" for s
    using assms(2,3) none
    by (simp add: handle_fragment [OF assms(1)] Let_def complete_def started_def)
  from loop_event [OF assms(4-6) this] show ?thesis .
qed

lemma loop_serves:
  assumes "list_all2 (\<lambda>(p, m) ev. is_fragment stages rq p m ev) parts evs"
    and "parts = ys @ [(p, False)]" and "\<forall>y\<in>set ys. snd y" and "expects rq sv"
    and "length (so_far rq sv) + length (concat (map fst parts)) \<le> unat ModuleMessageMaxBody"
    and "svDone sv = []" and "well_fed (svBus sv)" and "client_incoming (svBus sv) = evs @ rest"
    and "refusal has_handler now rq sv = None"
  shows "\<exists>s. (serve_step has_handler stages client_module_bus)\<^sup>*\<^sup>* (Draining, sv)
       (Draining, (started rq (so_far rq sv @ concat (map fst parts)) sv)\<lparr>svBus := s\<rparr>)
     \<and> well_fed s \<and> client_incoming s = rest \<and> client_stream s = client_stream (svBus sv)"
  using assms
proof (induction ys arbitrary: parts evs sv)
  case Nil
  then obtain ev where evs: "evs = [ev]" "is_fragment stages rq p False ev" by (auto simp: list_all2_Cons1)
  have "length (so_far rq sv) + length p \<le> unat ModuleMessageMaxBody" using Nil.prems(2,5) by simp
  from loop_completes [OF evs(2) Nil.prems(4) this Nil.prems(6,7) _ Nil.prems(9)] Nil.prems(2,8) evs(1)
  show ?case by simp
next
  case (Cons y ys)
  obtain q where y: "y = (q, True)" using Cons.prems(3) by (cases y) auto
  obtain ev evs' where evs: "evs = ev # evs'" "is_fragment stages rq q True ev"
    and frags: "list_all2 (\<lambda>(p, m) ev. is_fragment stages rq p m ev) (ys @ [(p, False)]) evs'"
    using Cons.prems(1,2) y by (auto simp: list_all2_Cons1)
  have small: "length (so_far rq sv) + length q \<le> unat ModuleMessageMaxBody" using Cons.prems(2,5) y by simp
  obtain a s where a: "belongs rq a" "asBody a = so_far rq sv @ q"
    and s: "well_fed s" "client_incoming s = evs' @ rest" "client_stream s = client_stream (svBus sv)"
    and run: "(serve_step has_handler stages client_module_bus)\<^sup>*\<^sup>* (Draining, sv)
       (Draining, sv\<lparr>svAssemblies := AList.update (rqCorr rq) a (svAssemblies sv), svBus := s\<rparr>)"
    using loop_gathers [OF evs(2) Cons.prems(4) small Cons.prems(6,7)] Cons.prems(8) evs(1) by (metis append_Cons)
  let ?sv = "sv\<lparr>svAssemblies := AList.update (rqCorr rq) a (svAssemblies sv), svBus := s\<rparr>"
  have so_far: "so_far rq ?sv = so_far rq sv @ q" by (simp add: so_far_def update_conv' a(2))
  have "expects rq ?sv" using Cons.prems(4) a(1) by (simp add: expects_def update_conv')
  moreover have "length (so_far rq ?sv) + length (concat (map fst (ys @ [(p, False)]))) \<le> unat ModuleMessageMaxBody"
    using Cons.prems(2,5) y by (simp add: a(2))
  moreover have "refusal has_handler now rq ?sv = None" using Cons.prems(9) by (subst refusal_state [of _ sv]) simp_all
  ultimately obtain s' where s': "well_fed s'" "client_incoming s' = rest" "client_stream s' = client_stream s"
    and run': "(serve_step has_handler stages client_module_bus)\<^sup>*\<^sup>* (Draining, ?sv)
       (Draining, (started rq (so_far rq ?sv @ concat (map fst (ys @ [(p, False)]))) ?sv)\<lparr>svBus := s'\<rparr>)"
    using Cons.IH [OF frags refl, of ?sv] Cons.prems(3,6) s by auto
  have "(started rq (so_far rq ?sv @ concat (map fst (ys @ [(p, False)]))) ?sv)\<lparr>svBus := s'\<rparr>
      = (started rq (so_far rq sv @ concat (map fst parts)) sv)\<lparr>svBus := s'\<rparr>"
    using Cons.prems(2) y by (simp add: started_def a(2) delete_update)
  with rtranclp_trans [OF run run'] s' s(3) show ?case by (intro exI [of _ s']) simp
qed

end
