(* ===== verification/Detail.thy ===== *)
theory Detail
  imports Serve "HOL-Library.Sublist"
begin

text \<open>
  What a failing handler leaves in the log: \<open>moduleDetail\<close> and the log entry of \<open>runHandler\<close>
  (\<open>server-go/bus/module_runtime.go\<close>), with \<open>strings.ToValidUTF8\<close> and \<open>utf8.DecodeRuneInString\<close> of the
  standard library written out, against the encoding of Unicode scalar values.
\<close>

section \<open>The encoding\<close>

text \<open>The specification: the code points that have an encoding, and their bytes.\<close>

definition scalar :: "nat \<Rightarrow> bool" where
  "scalar c \<longleftrightarrow> c < 0x110000 \<and> \<not> (0xD800 \<le> c \<and> c < 0xE000)"

definition utf8_bytes :: "nat \<Rightarrow> nat list" where
  "utf8_bytes c =
    (if c < 0x80 then [c]
     else if c < 0x800 then [0xC0 + c div 64, 0x80 + c mod 64]
     else if c < 0x10000 then [0xE0 + c div 4096, 0x80 + c div 64 mod 64, 0x80 + c mod 64]
     else [0xF0 + c div 262144, 0x80 + c div 4096 mod 64, 0x80 + c div 64 mod 64, 0x80 + c mod 64])"

definition utf8 :: "nat \<Rightarrow> byte list" where
  "utf8 c = map word_of_nat (utf8_bytes c)"

definition is_utf8 :: "byte list \<Rightarrow> bool" where
  "is_utf8 s \<longleftrightarrow> (\<exists>cs. list_all scalar cs \<and> s = concat (map utf8 cs))"

section \<open>The code\<close>

text \<open>
  The width \<open>utf8.DecodeRuneInString\<close> reports, \<open>None\<close> where it reports an invalid byte of width one.
  The second byte of a sequence is compared with the range its first byte allows, the others with
  \<open>80\<close> to \<open>BF\<close>.
\<close>

definition continues :: "byte \<Rightarrow> bool" where
  "continues b \<longleftrightarrow> 0x80 \<le> b \<and> b \<le> 0xBF"

definition second_ok :: "byte \<Rightarrow> byte \<Rightarrow> bool" where
  "second_ok b0 b1 \<longleftrightarrow>
    (if b0 = 0xE0 then 0xA0 \<le> b1 \<and> b1 \<le> 0xBF
     else if b0 = 0xED then 0x80 \<le> b1 \<and> b1 \<le> 0x9F
     else if b0 = 0xF0 then 0x90 \<le> b1 \<and> b1 \<le> 0xBF
     else if b0 = 0xF4 then 0x80 \<le> b1 \<and> b1 \<le> 0x8F
     else continues b1)"

fun rune_width :: "byte list \<Rightarrow> nat option" where
  "rune_width [] = None"
| "rune_width (b0 # s) =
    (if b0 < 0x80 then Some 1
     else if 0xC2 \<le> b0 \<and> b0 \<le> 0xDF
     then (case s of b1 # _ \<Rightarrow> if second_ok b0 b1 then Some 2 else None | _ \<Rightarrow> None)
     else if 0xE0 \<le> b0 \<and> b0 \<le> 0xEF
     then (case s of b1 # b2 # _ \<Rightarrow> if second_ok b0 b1 \<and> continues b2 then Some 3 else None | _ \<Rightarrow> None)
     else if 0xF0 \<le> b0 \<and> b0 \<le> 0xF4
     then (case s of b1 # b2 # b3 # _ \<Rightarrow>
             if second_ok b0 b1 \<and> continues b2 \<and> continues b3 then Some 4 else None | _ \<Rightarrow> None)
     else None)"

text \<open>\<open>strings.ToValidUTF8\<close> with the empty replacement: invalid bytes are dropped.\<close>

function ToValidUTF8 :: "byte list \<Rightarrow> byte list" where
  "ToValidUTF8 [] = []"
| "ToValidUTF8 (b # s) =
    (case rune_width (b # s) of
       None \<Rightarrow> ToValidUTF8 s
     | Some n \<Rightarrow> take n (b # s) @ ToValidUTF8 (drop n (b # s)))"
  by pat_completeness auto

lemma rune_width_pos: "rune_width s = Some n \<Longrightarrow> 0 < n \<and> n \<le> length s"
  by (cases s rule: rune_width.cases) (auto split: if_splits list.splits)

termination ToValidUTF8
  by (relation "measure length") (auto simp del: rune_width.simps dest: rune_width_pos)

definition no_detail :: "byte list" where
  "no_detail = map (\<lambda>c. word_of_nat (of_char c)) ''no detail''"

definition ellipsis :: "byte list" where
  "ellipsis = map (\<lambda>c. word_of_nat (of_char c)) ''...''"

definition max_detail :: nat where
  "max_detail = 300"

definition moduleDetail :: "byte list \<Rightarrow> byte list" where
  "moduleDetail response =
    (if response = [] then no_detail
     else if length response > max_detail then ToValidUTF8 (take max_detail response) @ ellipsis
     else ToValidUTF8 response)"



section \<open>What is rendered\<close>

lemma utf8_ascii: "b < 0x80 \<Longrightarrow> [b] = utf8 (unat b) \<and> scalar (unat b)"
  by (auto simp: utf8_def utf8_bytes_def scalar_def word_less_nat_alt)

















section \<open>What is rendered\<close>

lemma is_utf8_Nil [simp]: "is_utf8 []"
  unfolding is_utf8_def by (intro exI [of _ "[]"]) simp












text \<open>Bytes that are no character are dropped, a truncated character among them.\<close>

lemma moduleDetail_example:
  "moduleDetail [0x61, 0xFF, 0xC3, 0xA9, 0xED, 0xA0, 0x80, 0xE2, 0x82] = [0x61, 0xC3, 0xA9]"
  by (simp add: moduleDetail_def max_detail_def second_ok_def continues_def)

end
