(* ===== verification/Caller.thy ===== *)
theory Caller
  imports Reply Inbound
begin

text \<open>
  Calling a module stage, \<open>server-go/bus/module_caller.go\<close>: a request is cut into fragments and sent
  without waiting for room, then the bus is polled until the correlated result, a refusal of the
  host, the deadline or the end of the context arrives. The wait may last for ever, so it is a
  partial function over the schedule of its rounds.
\<close>

unbundle bit_operations_syntax

section \<open>The caller\<close>

record 's ModuleCaller =
  mcClient :: "'s callerBus option"
  mcCorrelation :: u64
  mcPollInterval :: u64
  mcResponseLimit :: u32

definition newModuleCaller :: "'s callerBus \<Rightarrow> 's ModuleCaller" where
  "newModuleCaller client = \<lparr>mcClient = Some client, mcCorrelation = 0, mcPollInterval = 200 * 1000,
     mcResponseLimit = ModuleMessageMaxBody\<rparr>"

definition NewModuleCaller :: "'s callerBus option \<Rightarrow> error + 's ModuleCaller" where
  "NewModuleCaller client =
    (case client of None \<Rightarrow> Inl ErrModuleConfig | Some client \<Rightarrow> Inr (newModuleCaller client))"

section \<open>Sending the request\<close>

text \<open>
  The loop of \<open>send\<close>; the buffer \<open>frame\<close> is allocated once and reused. The result is what the
  loop returns and the state of the bus.
\<close>

partial_function (option) send_from ::
  "'s callerBus \<Rightarrow> u32 \<Rightarrow> u32 \<Rightarrow> u64 \<Rightarrow> u64 \<Rightarrow> u64 \<Rightarrow> byte list \<Rightarrow> nat \<Rightarrow> bool \<Rightarrow> nat \<Rightarrow> byte list \<Rightarrow> 's
   \<Rightarrow> (error option \<times> 's) option" where
  "send_from client eventKind stageID traceID correlation deadlineNS request chunk first_round offset frame s =
    (if \<not> (first_round \<or> offset < length request) then Some (None, s)
     else
      (let part = (if length request - offset > chunk then chunk else length request - offset);
           has_more = offset + part < length request;
           message = \<lparr>mOperation = ModuleOpInvoke, mStatus = ModuleStatusOK, mStageID = stageID, mFlags = 0,
                      mBodyLen = of_nat part, mDeadlineNS = deadlineNS, mTraceID = traceID\<rparr>
       in case ModuleMessage_Encode message frame of
            (Inl err, frame) \<Rightarrow> Some (Some err, s)
          | (Inr written, frame) \<Rightarrow>
             (let frame = put_at written (slice_at offset part request) frame
              in case cbRequestFragment client eventKind correlation (take (written + part) frame) has_more s of
                   (Some err, s) \<Rightarrow> Some (Some err, s)
                 | (None, s) \<Rightarrow>
                     send_from client eventKind stageID traceID correlation deadlineNS request chunk False
                       (offset + part) frame s)))"

definition send ::
  "'s callerBus \<Rightarrow> u32 \<Rightarrow> u32 \<Rightarrow> u64 \<Rightarrow> u64 \<Rightarrow> u64 \<Rightarrow> byte list \<Rightarrow> 's \<Rightarrow> (error option \<times> 's) option" where
  "send client eventKind stageID traceID correlation deadlineNS request s =
    (let budget = cbInlineBudget client s
     in if budget \<le> of_nat ModuleMessageHeaderLen then Some (Some ErrModuleRuntime, s)
        else send_from client eventKind stageID traceID correlation deadlineNS request
               (unat budget - ModuleMessageHeaderLen) True 0 (replicate (unat budget) 0) s)"

section \<open>Waiting for the result\<close>

datatype call_result = CallBody "byte list" | CallErr error | CallPanic

text \<open>What one event means to the call: nothing, a part of the result, or its end.\<close>

datatype verdict = Skip | Gather "byte list" | Finish call_result

definition await_event :: "u32 \<Rightarrow> u32 \<Rightarrow> u64 \<Rightarrow> byte list \<Rightarrow> Event \<Rightarrow> verdict" where
  "await_event responseLimit eventKind correlation body event =
    (let f = evFrame event in
     if fCorrelationID f = correlation \<and> fEventKind f = KindCapabilityAbsent
     then Finish (CallErr ErrModuleCallCapabilityAbsent)
     else if fCorrelationID f = correlation \<and> fEventKind f = KindError
     then Finish (CallErr ErrModuleCallRejected)
     else if fEventKind f \<noteq> eventKind \<or> fCorrelationID f \<noteq> correlation then Skip
     else
      (case DecodeModuleMessage (evPayload event) of
         Inl _ \<Rightarrow> Skip
       | Inr message \<Rightarrow>
          if mOperation message \<noteq> ModuleOpResult then Skip
          else if mStatus message \<noteq> ModuleStatusOK then Finish (CallErr (ModuleCallStatusError (mStatus message)))
          else
           (let start = ModuleMessageHeaderLen; stop = start + unat (mBodyLen message)
            in if stop > length (evPayload event) then Finish (CallErr ErrModuleRuntime)
               else if of_nat (length body) + mBodyLen message > responseLimit
               then Finish (CallErr ErrModuleRuntime)
               else
                (let body = body @ slice_at start (stop - start) (evPayload event)
                 in if fHdrFlags f AND FMore \<noteq> 0 then Gather body else Finish (CallBody body)))))"

text \<open>
  One round of the wait: what the host does to the bus before the poll, and, looked at when the
  poll finds nothing, the error of the context and the time.
\<close>

record 's round =
  rdHost :: "'s \<Rightarrow> 's"
  rdCtxErr :: "error option"
  rdNow :: int

partial_function (option) awaitReply ::
  "'s callerBus \<Rightarrow> u32 \<Rightarrow> (nat \<Rightarrow> 's round) \<Rightarrow> u32 \<Rightarrow> u64 \<Rightarrow> int option \<Rightarrow> byte list \<Rightarrow> nat \<Rightarrow> 's
   \<Rightarrow> (call_result \<times> nat \<times> 's) option" where
  "awaitReply client responseLimit rounds eventKind correlation expiry body i s =
    (case cbPoll client (rdHost (rounds i) s) of (res, s) \<Rightarrow>
      (case res of
         PollErr err \<Rightarrow> Some (CallErr err, Suc i, s)
       | PollPanic \<Rightarrow> Some (CallPanic, Suc i, s)
       | PollNone \<Rightarrow>
          (case rdCtxErr (rounds i) of
             Some err \<Rightarrow> Some (CallErr (Wrapped ErrModuleCallCancelled err), Suc i, s)
           | None \<Rightarrow>
              if (case expiry of None \<Rightarrow> False | Some t \<Rightarrow> rdNow (rounds i) > t)
              then Some (CallErr ErrModuleCallDeadline, Suc i, s)
              else awaitReply client responseLimit rounds eventKind correlation expiry body (Suc i) s)
       | PollEvent event \<Rightarrow>
          (case await_event responseLimit eventKind correlation body event of
             Skip \<Rightarrow> awaitReply client responseLimit rounds eventKind correlation expiry body (Suc i) s
           | Gather body \<Rightarrow> awaitReply client responseLimit rounds eventKind correlation expiry body (Suc i) s
           | Finish r \<Rightarrow> Some (r, Suc i, s))))"

section \<open>A call\<close>

text \<open>
  \<open>nowNS\<close> is the monotonic clock before the request is sent and \<open>now\<close> the time after it; a nil
  context never ends. A panic of the poll passes through \<open>Call\<close>.
\<close>

definition Call ::
  "(nat \<Rightarrow> 's round) \<Rightarrow> bool \<Rightarrow> u64 \<Rightarrow> int \<Rightarrow> u32 \<Rightarrow> u32 \<Rightarrow> u64 \<Rightarrow> u64 \<Rightarrow> byte list \<Rightarrow> 's ModuleCaller option \<Rightarrow> 's
   \<Rightarrow> (call_result \<times> 's ModuleCaller option \<times> 's) option" where
  "Call rounds ctxGiven nowNS now eventKind stageID traceID deadline request caller s =
    (case caller of
       None \<Rightarrow> Some (CallErr ErrModuleConfig, caller, s)
     | Some m \<Rightarrow>
      (case mcClient m of
         None \<Rightarrow> Some (CallErr ErrModuleConfig, caller, s)
       | Some client \<Rightarrow>
          if (of_nat (length request) :: u32) > ModuleMessageMaxBody
          then Some (CallErr ErrModuleConfig, caller, s)
          else
           (let rounds = (if ctxGiven then rounds else (\<lambda>n. (rounds n)\<lparr>rdCtxErr := None\<rparr>));
                m = m\<lparr>mcCorrelation := mcCorrelation m + 1\<rparr>;
                correlation = mcCorrelation m;
                deadlineNS = (if sint deadline > 0 then nowNS + deadline else 0)
            in Option.bind (send client eventKind stageID traceID correlation deadlineNS request s)
              (\<lambda>(err, s). case err of
                 Some err \<Rightarrow> Some (CallErr err, Some m, s)
               | None \<Rightarrow>
                  (let expiry = (if sint deadline > 0 then Some (now + sint deadline) else None)
                   in Option.bind (awaitReply client (mcResponseLimit m) rounds eventKind correlation expiry [] 0 s)
                     (\<lambda>(r, _, s). case r of
                        CallErr err \<Rightarrow> (case cbCancel client eventKind correlation s of
                          (_, s) \<Rightarrow> Some (CallErr err, Some m, s))
                      | CallPanic \<Rightarrow> Some (CallPanic, Some m, s)
                      | CallBody body \<Rightarrow> Some (CallBody body, Some m, s)))))))"

section \<open>The request as a list of fragments\<close>

definition request_message :: "u32 \<Rightarrow> u64 \<Rightarrow> u64 \<Rightarrow> byte list \<Rightarrow> ModuleMessage" where
  "request_message stageID deadlineNS traceID p = \<lparr>mOperation = ModuleOpInvoke, mStatus = ModuleStatusOK,
     mStageID = stageID, mFlags = 0, mBodyLen = of_nat (length p), mDeadlineNS = deadlineNS, mTraceID = traceID\<rparr>"

definition request_payload :: "u32 \<Rightarrow> u64 \<Rightarrow> u64 \<Rightarrow> byte list \<Rightarrow> byte list" where
  "request_payload stageID deadlineNS traceID p = message_header (request_message stageID deadlineNS traceID p) @ p"

definition request_frags :: "u32 \<Rightarrow> u32 \<Rightarrow> u64 \<Rightarrow> u64 \<Rightarrow> byte list \<Rightarrow> (byte list \<times> bool) list" where
  "request_frags budget stageID deadlineNS traceID request =
    map (\<lambda>(p, m). (request_payload stageID deadlineNS traceID p, m))
      (frag_list (unat budget - ModuleMessageHeaderLen) request)"

lemma request_message_valid:
  assumes "stageID \<noteq> 0" and "length p \<le> unat ModuleMessageMaxBody"
  shows "message_valid (request_message stageID deadlineNS traceID p)"
  using assms body_len_small(2) [OF assms(2)]
  by (simp add: message_valid_def request_message_def go_const)

lemma request_payload_decodes:
  assumes "stageID \<noteq> 0" and "length p \<le> unat ModuleMessageMaxBody"
  shows "DecodeModuleMessage (request_payload stageID deadlineNS traceID p)
    = Inr (request_message stageID deadlineNS traceID p)"
  unfolding request_payload_def
  by (rule DecodeModuleMessage_header [OF request_message_valid [OF assms]])
    (simp add: request_message_def body_len_small(1) [OF assms(2)])

lemma send_from_frags:
  assumes "0 < n" and "stageID \<noteq> 0" and "length request \<le> unat ModuleMessageMaxBody"
    and "offset \<le> length request" and "first_round \<or> offset < length request"
    and "length frame = ModuleMessageHeaderLen + n"
  shows "send_from client kind stageID traceID corr deadlineNS request n first_round offset frame s
    = Some (send_list (cbRequestFragment client) kind corr
        (map (\<lambda>(p, m). (request_payload stageID deadlineNS traceID p, m)) (frag_list n (drop offset request))) s)"
  using assms(4-6)
proof (induction "length request - offset" arbitrary: offset first_round frame s rule: less_induct)
  case less
  define part where "part = (if length request - offset > n then n else length request - offset)"
  let ?p = "slice_at offset part request" and ?h = ModuleMessageHeaderLen
  let ?m = "request_message stageID deadlineNS traceID ?p"
  let ?frame = "message_header ?m @ ?p @ drop (?h + part) frame"
  have part: "length ?p = part" "part \<le> unat ModuleMessageMaxBody" "offset + part \<le> length request" "part \<le> n"
    using less.prems assms(3) by (auto simp: part_def slice_at_def)
  have msg: "\<lparr>mOperation = ModuleOpInvoke, mStatus = ModuleStatusOK, mStageID = stageID, mFlags = 0,
      mBodyLen = of_nat part, mDeadlineNS = deadlineNS, mTraceID = traceID\<rparr> = ?m"
    by (simp add: request_message_def part)
  have enc: "ModuleMessage_Encode ?m frame = (Inr ?h, message_header ?m @ drop ?h frame)"
    using request_message_valid [OF assms(2)] part less.prems(3) by (simp add: ModuleMessage_Encode_eq)
  have fill: "put_at ?h ?p (message_header ?m @ drop ?h frame) = ?frame"
    using part less.prems(3) by (simp add: put_at_skip put_at_front add.commute)
  have cut: "take (?h + part) ?frame = request_payload stageID deadlineNS traceID ?p"
    using part by (simp add: request_payload_def)
  have frame: "length ?frame = ?h + n" using part less.prems(3) by simp
  have unfolded: "send_from client kind stageID traceID corr deadlineNS request n first_round offset frame s =
     (case cbRequestFragment client kind corr (request_payload stageID deadlineNS traceID ?p)
         (offset + part < length request) s of
        (Some err, s) \<Rightarrow> Some (Some err, s)
      | (None, s) \<Rightarrow> send_from client kind stageID traceID corr deadlineNS request n False (offset + part) ?frame s)"
    using less.prems by (subst send_from.simps)
      (simp only: part_def [symmetric] Let_def msg enc fill cut prod.case sum.case simp_thms if_False)
  show ?case
  proof (cases "length request - offset > n")
    case True
    then have p: "?p = take n (drop offset request)" "offset + part < length request" "part = n"
      by (simp_all add: part_def slice_at_def less_diff_conv add.commute)
    have rest: "send_from client kind stageID traceID corr deadlineNS request n False (offset + part) ?frame s
      = Some (send_list (cbRequestFragment client) kind corr
          (map (\<lambda>(p, m). (request_payload stageID deadlineNS traceID p, m)) (frag_list n (drop (offset + part) request))) s)"
      for s
      using True p assms(1) frame by (intro less.hyps) simp_all
    have "frag_list n (drop offset request) = (?p, True) # frag_list n (drop (offset + part) request)"
      using True assms(1) p by (subst frag_list.simps) (simp add: add.commute)
    then show ?thesis
      unfolding unfolded rest using p(2) by (simp split: prod.split option.split)
  next
    case False
    then have p: "?p = drop offset request" "offset + part = length request"
      using less.prems by (simp_all add: part_def slice_at_def)
    have "frag_list n (drop offset request) = [(?p, False)]"
      using False p by (subst frag_list.simps) simp
    moreover have "send_from client kind stageID traceID corr deadlineNS request n False (length request) fr s
        = Some (None, s)" for fr s
      by (subst send_from.simps) simp
    ultimately show ?thesis unfolding unfolded p(2) by (simp split: prod.split option.split)
  qed
qed

lemma send_frags_list:
  assumes "stageID \<noteq> 0" and "length request \<le> unat ModuleMessageMaxBody"
    and "ModuleMessageHeaderLen < unat (cbInlineBudget client s)"
  shows "send client kind stageID traceID corr deadlineNS request s
    = Some (send_list (cbRequestFragment client) kind corr
        (request_frags (cbInlineBudget client s) stageID deadlineNS traceID request) s)"
proof -
  have "\<not> cbInlineBudget client s \<le> of_nat ModuleMessageHeaderLen"
    using assms(3) by (simp add: word_le_nat_alt ModuleMessageHeaderLen_def)
  then show ?thesis
    using send_from_frags [OF _ assms(1,2), of "unat (cbInlineBudget client s) - ModuleMessageHeaderLen" 0 True
        "replicate (unat (cbInlineBudget client s)) 0"] assms(3)
    by (simp add: send_def Let_def request_frags_def)
qed

end
