(* ===== verification/Calls.thy ===== *)
theory Calls
  imports Caller
begin

text \<open>
  Properties of a module call of \<open>server-go/bus/module_caller.go\<close>: the wait for the result is a fold
  over the events in the order in which they arrive; when it ends and when it does not; what a call
  leaves in the outbound stream.
\<close>

unbundle bit_operations_syntax

section \<open>The wait as a fold over events\<close>

fun await_scan :: "u32 \<Rightarrow> u32 \<Rightarrow> u64 \<Rightarrow> byte list \<Rightarrow> Event list \<Rightarrow> (call_result \<times> Event list) option" where
  "await_scan limit kind corr body [] = None"
| "await_scan limit kind corr body (ev # evs) =
    (case await_event limit kind corr body ev of
       Skip \<Rightarrow> await_scan limit kind corr body evs
     | Gather body \<Rightarrow> await_scan limit kind corr body evs
     | Finish r \<Rightarrow> Some (r, evs))"

text \<open>How a round can end the wait when the poll finds nothing.\<close>

definition gives_up :: "int option \<Rightarrow> 's round \<Rightarrow> call_result option" where
  "gives_up expiry rd =
    (case rdCtxErr rd of
       Some err \<Rightarrow> Some (CallErr (Wrapped ErrModuleCallCancelled err))
     | None \<Rightarrow> if (case expiry of None \<Rightarrow> False | Some t \<Rightarrow> rdNow rd > t)
               then Some (CallErr ErrModuleCallDeadline) else None)"

lemma await_round:
  "awaitReply client limit rounds kind corr expiry body i s = Some t \<Longrightarrow> i < fst (snd t)"
proof (induction rule: awaitReply.raw_induct [rotated, consumes 1])
  case (1 rec client limit rounds kind corr expiry body i s t)
  obtain r i' s' where t: "t = (r, i', s')" by (cases t)
  from 1(2) show ?case
    by (auto simp: t split: prod.splits pollResult.splits option.splits if_splits verdict.splits
        dest!: 1(1) Suc_lessD)
qed

context event_source
begin

lemma await_step [consumes 3, case_names idle event]:
  assumes "cbPoll client = poll" and "ok s" and "host_feeds (rdHost (rounds i))"
  obtains (idle) s' where "ok s'" and "later s s'" and "incoming s = []" and "incoming s' = []"
      and "awaitReply client limit rounds kind corr expiry body i s =
         (case gives_up expiry (rounds i) of
            Some r \<Rightarrow> Some (r, Suc i, s')
          | None \<Rightarrow> awaitReply client limit rounds kind corr expiry body (Suc i) s')"
    | (event) s' ev new where "ok s'" and "later s s'" and "incoming s @ new = ev # incoming s'"
      and "host_quiet (rdHost (rounds i)) \<longrightarrow> new = []"
      and "awaitReply client limit rounds kind corr expiry body i s =
         (case await_event limit kind corr body ev of
            Skip \<Rightarrow> awaitReply client limit rounds kind corr expiry body (Suc i) s'
          | Gather body \<Rightarrow> awaitReply client limit rounds kind corr expiry body (Suc i) s'
          | Finish r \<Rightarrow> Some (r, Suc i, s'))"
proof -
  let ?h = "rdHost (rounds i) s"
  obtain new where h: "ok ?h" "later s ?h" "incoming ?h = incoming s @ new"
    using assms(2,3) by (auto simp: host_feeds_def)
  have quiet: "host_quiet (rdHost (rounds i)) \<longrightarrow> new = []"
    using h(3) assms(2) by (auto simp: host_quiet_def)
  obtain res s' where run: "poll ?h = (res, s')" by fastforce
  show thesis
  proof (cases "incoming s @ new")
    case Nil
    then have "incoming ?h = []" using h(3) by simp
    note n = none_left [OF h(1) this run]
    show thesis
      using n later_trans [OF h(2)] Nil
      by (intro idle [of s'], simp_all) (subst awaitReply.simps,
        simp add: assms(1) run gives_up_def split: option.split)
  next
    case (Cons ev rest)
    then have "incoming ?h = ev # rest" using h(3) by simp
    note n = takes [OF h(1) this run]
    show thesis
      using n later_trans [OF h(2)] Cons quiet
      by (intro event [of s' new ev], simp_all) (subst awaitReply.simps, simp add: assms(1) run)
  qed
qed

text \<open>Events that are there are read in order, whatever the host adds behind them.\<close>

lemma await_decided:
  assumes "cbPoll client = poll" and "\<And>n. host_feeds (rdHost (rounds n))"
    and "await_scan limit kind corr body evs = Some (r, rest)" and "ok s" and "incoming s = evs @ extra"
  shows "\<exists>i' s' new. awaitReply client limit rounds kind corr expiry body i s = Some (r, i', s')
     \<and> ok s' \<and> later s s' \<and> incoming s' = rest @ extra @ new"
  using assms(3-5)
proof (induction evs arbitrary: body i s extra)
  case (Cons ev evs)
  obtain s1 new where s1: "ok s1" "later s s1" "incoming s1 = evs @ extra @ new"
    and run: "awaitReply client limit rounds kind corr expiry body i s =
       (case await_event limit kind corr body ev of
          Skip \<Rightarrow> awaitReply client limit rounds kind corr expiry body (Suc i) s1
        | Gather body \<Rightarrow> awaitReply client limit rounds kind corr expiry body (Suc i) s1
        | Finish r \<Rightarrow> Some (r, Suc i, s1))"
    using assms(1) Cons.prems(2) assms(2)
  proof (cases rule: await_step [where rounds = rounds and i = i and limit = limit and kind = kind
        and corr = corr and expiry = expiry and body = body])
    case (idle s')
    then show ?thesis using Cons.prems(3) by simp
  next
    case (event s' ev' new)
    then show ?thesis using Cons.prems(3) by (intro that [of s' new]) simp_all
  qed
  have ih: "\<exists>i' s' new'. awaitReply client limit rounds kind corr expiry b (Suc i) s1 = Some (r, i', s')
     \<and> ok s' \<and> later s s' \<and> incoming s' = rest @ extra @ new'"
    if "await_scan limit kind corr b evs = Some (r, rest)" for b
    using Cons.IH [OF that s1(1,3), of "Suc i"] later_trans [OF s1(2)] by auto
  show ?case
    using Cons.prems(1) run s1 ih by (cases "await_event limit kind corr body ev") auto
qed simp

text \<open>
  A result is the verdict of the events taken, or the wait gave up in a round in which there was no
  event.
\<close>

lemma await_sound:
  assumes "cbPoll client = poll" and "\<And>n. host_feeds (rdHost (rounds n))"
    and "awaitReply client limit rounds kind corr expiry body i s = Some (r, i', s')" and "ok s"
  shows "\<exists>evs new. incoming s @ new = evs @ incoming s' \<and> ok s' \<and> later s s'
     \<and> (await_scan limit kind corr body evs = Some (r, [])
        \<or> await_scan limit kind corr body evs = None \<and> incoming s' = []
          \<and> (\<exists>n. i' = Suc n \<and> gives_up expiry (rounds n) = Some r))"
  using assms(3,4)
proof (induction "i' - i" arbitrary: body i s rule: less_induct)
  case less
  let ?goal = "\<lambda>body s. \<exists>evs new. incoming s @ new = evs @ incoming s' \<and> ok s' \<and> later s s'
     \<and> (await_scan limit kind corr body evs = Some (r, [])
        \<or> await_scan limit kind corr body evs = None \<and> incoming s' = []
          \<and> (\<exists>n. i' = Suc n \<and> gives_up expiry (rounds n) = Some r))"
  have later_rounds: "?goal b s1"
    if "awaitReply client limit rounds kind corr expiry b (Suc i) s1 = Some (r, i', s')" "ok s1" for b s1
    using await_round [OF that(1)] less.hyps [of "Suc i", OF _ that] by simp
  have glue: ?case
    if goal: "?goal b s1" and scan: "\<forall>evs. await_scan limit kind corr body (evs0 @ evs) = await_scan limit kind corr b evs"
      and read: "incoming s @ new = evs0 @ incoming s1" and later: "later s s1" for b s1 evs0 new
  proof -
    obtain evs new' where new': "incoming s1 @ new' = evs @ incoming s'" "ok s'" "later s1 s'"
      "await_scan limit kind corr b evs = Some (r, [])
       \<or> await_scan limit kind corr b evs = None \<and> incoming s' = []
         \<and> (\<exists>n. i' = Suc n \<and> gives_up expiry (rounds n) = Some r)"
      using goal by blast
    moreover have "(incoming s @ new) @ new' = (evs0 @ evs) @ incoming s'"
      unfolding read using new' by simp
    ultimately show ?thesis
      using scan later_trans [OF later]
      by (intro exI [of _ "evs0 @ evs"] exI [of _ "new @ new'"]) simp
  qed
  show ?case
    using assms(1) less.prems(2) assms(2)
  proof (cases rule: await_step [where rounds = rounds and i = i and limit = limit and kind = kind
        and corr = corr and expiry = expiry and body = body])
    case (idle s1)
    show ?thesis
    proof (cases "gives_up expiry (rounds i)")
      case (Some r')
      with idle less.prems show ?thesis by (intro exI [of _ "[]"]) auto
    next
      case None
      with idle less.prems(1) have "?goal body s1" by (intro later_rounds) simp_all
      then show ?thesis by (rule glue [of _ _ "[]" "[]"]) (simp_all add: idle)
    qed
  next
    case (event s1 ev new)
    show ?thesis
    proof (cases "await_event limit kind corr body ev")
      case (Finish r')
      with event less.prems show ?thesis by (intro exI [of _ "[ev]"] exI [of _ new]) auto
    next
      case Skip
      with event less.prems(1) have "?goal body s1" by (intro later_rounds) simp_all
      then show ?thesis by (rule glue [of _ _ "[ev]" new]) (simp_all add: Skip event)
    next
      case (Gather b)
      with event less.prems(1) have "?goal b s1" by (intro later_rounds) simp_all
      then show ?thesis by (rule glue [of _ _ "[ev]" new]) (simp_all add: Gather event)
    qed
  qed
qed

text \<open>Once the host has fallen silent and every round gives up, the events that are left run out.\<close>

lemma await_drains:
  assumes "cbPoll client = poll" and "\<And>n. host_feeds (rdHost (rounds n))"
    and "\<And>n. N \<le> n \<Longrightarrow> host_quiet (rdHost (rounds n)) \<and> gives_up expiry (rounds n) \<noteq> None"
    and "ok s" and "N \<le> i"
  shows "awaitReply client limit rounds kind corr expiry body i s \<noteq> None"
  using assms(4,5)
proof (induction "length (incoming s)" arbitrary: body i s rule: less_induct)
  case less
  note round = assms(3) [OF less.prems(2)]
  show ?case
    using assms(1) less.prems(1) assms(2)
  proof (cases rule: await_step [where rounds = rounds and i = i and limit = limit and kind = kind
        and corr = corr and expiry = expiry and body = body])
    case (idle s1)
    then show ?thesis using round by auto
  next
    case (event s1 ev new)
    have "awaitReply client limit rounds kind corr expiry b (Suc i) s1 \<noteq> None" for b
      using event round less.prems by (intro less.hyps) simp_all
    then show ?thesis using event(5) by (simp split: verdict.split)
  qed
qed

lemma await_ends:
  assumes "cbPoll client = poll" and "\<And>n. host_feeds (rdHost (rounds n))"
    and "\<And>n. N \<le> n \<Longrightarrow> host_quiet (rdHost (rounds n)) \<and> gives_up expiry (rounds n) \<noteq> None"
    and "ok s"
  shows "awaitReply client limit rounds kind corr expiry body i s \<noteq> None"
  using assms(4)
proof (induction "N - i" arbitrary: body i s)
  case 0
  then show ?case using await_drains [OF assms(1-3), where s = s and i = i] by simp
next
  case (Suc k)
  then have IH: "awaitReply client limit rounds kind corr expiry b (Suc i) s1 \<noteq> None" if "ok s1" for b s1
    using Suc.hyps(1) [of "Suc i"] that by simp
  show ?case
    using assms(1) Suc.prems assms(2)
  proof (cases rule: await_step [where rounds = rounds and i = i and limit = limit and kind = kind
        and corr = corr and expiry = expiry and body = body])
    case (idle s1)
    then show ?thesis using IH by (simp split: option.split)
  next
    case (event s1 ev new)
    then show ?thesis using IH by (simp split: verdict.split)
  qed
qed

end

section \<open>Events of other traffic\<close>

text \<open>An event that cannot be about the call: a different kind or a different correlation.\<close>

definition unrelated :: "u32 \<Rightarrow> u64 \<Rightarrow> Event \<Rightarrow> bool" where
  "unrelated kind corr ev \<longleftrightarrow> fCorrelationID (evFrame ev) \<noteq> corr
     \<or> fEventKind (evFrame ev) \<notin> {kind, KindCapabilityAbsent, KindError}"

lemma unrelated_skip: "unrelated kind corr ev \<Longrightarrow> await_event limit kind corr body ev = Skip"
  by (auto simp: unrelated_def await_event_def Let_def)

lemma await_scan_filter:
  assumes "await_scan limit kind corr body (filter (\<lambda>ev. \<not> unrelated kind corr ev) evs) = Some (r, rest)"
  shows "\<exists>rest'. await_scan limit kind corr body evs = Some (r, rest')"
  using assms
proof (induction evs arbitrary: body)
  case (Cons ev evs)
  show ?case
  proof (cases "unrelated kind corr ev")
    case True
    then show ?thesis using Cons by (simp add: unrelated_skip)
  next
    case False
    then show ?thesis using Cons by (auto split: verdict.splits)
  qed
qed simp

lemma await_scan_append:
  "await_scan limit kind corr body evs = Some (r, rest) \<Longrightarrow>
   await_scan limit kind corr body (evs @ more_evs) = Some (r, rest @ more_evs)"
  by (induction evs arbitrary: body) (auto split: verdict.splits)

lemma await_scan_panic: "await_scan limit kind corr body evs \<noteq> Some (CallPanic, rest)"
proof (induction evs arbitrary: body)
  case (Cons ev evs)
  have "await_event limit kind corr body ev \<noteq> Finish CallPanic"
    by (simp add: await_event_def Let_def split: sum.split)
  then show ?case using Cons by (simp split: verdict.split)
qed simp

section \<open>The fragments of a reply\<close>

definition reply_event :: "u32 \<Rightarrow> u64 \<Rightarrow> byte list \<times> bool \<Rightarrow> Event \<Rightarrow> bool" where
  "reply_event kind corr frag ev \<longleftrightarrow> (let f = evFrame ev in
     fEventKind f = kind \<and> fCorrelationID f = corr \<and> evPayload ev = fst frag
     \<and> (fHdrFlags f AND FMore \<noteq> 0 \<longleftrightarrow> snd frag))"

lemma await_event_reply:
  assumes "reply_event kind corr (result_payload stageID traceID st p, has_more) ev"
    and "kind \<noteq> KindCapabilityAbsent" and "kind \<noteq> KindError"
    and "validModuleStatus st" and "stageID \<noteq> 0"
    and "length body + length p \<le> unat ModuleMessageMaxBody"
  shows "await_event ModuleMessageMaxBody kind corr body ev =
    (if st \<noteq> ModuleStatusOK then Finish (CallErr (ModuleCallStatusError st))
     else if has_more then Gather (body @ p) else Finish (CallBody (body @ p)))"
proof -
  let ?m = "result_message stageID traceID st p"
  have p: "length p \<le> unat ModuleMessageMaxBody" using assms(6) by simp
  have payload: "evPayload ev = message_header ?m @ p"
    using assms(1) by (simp add: reply_event_def Let_def result_payload_def)
  then have dec: "DecodeModuleMessage (evPayload ev) = Inr ?m"
    using result_payload_decodes [OF assms(4,5) p] by (simp add: result_payload_def)
  have len: "unat (mBodyLen ?m) = length p"
    using body_len_small(1) [OF p] by (simp add: result_message_def)
  have "of_nat (length body) + mBodyLen ?m = (of_nat (length body + length p) :: u32)"
    by (simp add: result_message_def)
  then have fits: "\<not> of_nat (length body) + mBodyLen ?m > ModuleMessageMaxBody"
    using body_len_small(2) [OF assms(6)] by simp
  have "slice_at ModuleMessageHeaderLen (length p) (message_header m @ p) = p" for m
    by (simp add: slice_at_def)
  then show ?thesis
    using assms(1-3) fits
    unfolding await_event_def Let_def dec sum.case len
    by (simp add: reply_event_def Let_def payload) (simp add: result_message_def ModuleOpResult_def)
qed

lemma await_scan_reply:
  assumes "list_all2 (reply_event kind corr)
      (map (\<lambda>(p, m). (result_payload stageID traceID st p, m)) (ys @ [(p, False)])) evs"
    and "\<forall>y\<in>set ys. snd y" and "kind \<noteq> KindCapabilityAbsent" and "kind \<noteq> KindError"
    and "validModuleStatus st" and "stageID \<noteq> 0"
    and "length body + length (concat (map fst (ys @ [(p, False)]))) \<le> unat ModuleMessageMaxBody"
  shows "\<exists>rest. await_scan ModuleMessageMaxBody kind corr body evs =
    Some (if st = ModuleStatusOK then CallBody (body @ concat (map fst (ys @ [(p, False)])))
          else CallErr (ModuleCallStatusError st), rest)"
  using assms(1,2,7)
proof (induction ys arbitrary: body evs)
  case Nil
  then obtain ev where evs: "evs = [ev]" "reply_event kind corr (result_payload stageID traceID st p, False) ev"
    by (auto simp: list_all2_Cons1)
  then show ?case
    using Nil.prems(3) by (simp add: await_event_reply [OF evs(2) assms(3-6)])
next
  case (Cons y ys)
  obtain q where y: "y = (q, True)" using Cons.prems(2) by (cases y) auto
  obtain ev evs' where evs: "evs = ev # evs'" "reply_event kind corr (result_payload stageID traceID st q, True) ev"
    "list_all2 (reply_event kind corr)
      (map (\<lambda>(p, m). (result_payload stageID traceID st p, m)) (ys @ [(p, False)])) evs'"
    using Cons.prems(1) by (auto simp: y list_all2_Cons1)
  have "length body + length q \<le> unat ModuleMessageMaxBody" using Cons.prems(3) by (simp add: y)
  note ev = await_event_reply [OF evs(2) assms(3-6) this]
  show ?case
    using Cons.IH [OF evs(3), of "body @ q"] Cons.prems(2,3)
    by (cases "st = ModuleStatusOK") (simp_all add: evs(1) ev y)
qed

section \<open>A call on a real client\<close>

text \<open>Sending leaves alone what is still to be read.\<close>

lemma send_list_quiet:
  assumes "well_fed (c, m)" and "send_list (cbRequestFragment client_caller_bus) kind corr frs (c, m) = (err, s')"
  shows "\<exists>m'. s' = (c, m') \<and> well_fed (c, m') \<and> client_incoming (c, m') = client_incoming (c, m)"
  using assms
proof (induction frs arbitrary: m)
  case (Cons f frs)
  obtain p has_more where f: "f = (p, has_more)" by fastforce
  obtain e m1 where one: "RequestFragment c kind corr p has_more m = (e, m1)" by fastforce
  have ok: "client_ok c m" using Cons.prems(1) by (simp add: well_fed_def client_inv_def)
  note sent = client_send [OF ok _ one [unfolded RequestFragment_def]]
  show ?case
  proof (cases e)
    case (Some x)
    then have "s' = (c, m)" using Cons.prems(2) one sent by (auto simp: f client_caller_bus_def)
    then show ?thesis using Cons.prems(1) by simp
  next
    case None
    then have "client_ok c m1" "inbound c m1 = inbound c m" "bmCtl m1 = bmCtl m" using sent by simp_all
    note fed = send_well_fed [OF Cons.prems(1) this]
    have "send_list (cbRequestFragment client_caller_bus) kind corr frs (c, m1) = (err, s')"
      using Cons.prems(2) one None by (simp add: f client_caller_bus_def)
    with Cons.IH [of m1] fed show ?thesis by simp
  qed
qed auto

definition cancel_event :: "Client \<Rightarrow> u32 \<Rightarrow> u64 \<Rightarrow> Event option" where
  "cancel_event c kind corr = Some \<lparr>evFrame = emit_frame c FCancel kind corr [], evPayload = []\<rparr>"

lemma cancel_stream:
  assumes "well_fed (c, m)" and "corr \<noteq> 0" and "cbCancel client_caller_bus kind corr (c, m) = (e, s')"
  shows "\<exists>m'. s' = (c, m') \<and>
     (client_stream (c, m') = client_stream (c, m) @ [cancel_event c kind corr]
      \<or> m' = m \<and> length (outbound c m) = unat (rCapacity (qpOutbound (cQp c))))"
proof -
  have ok: "client_ok c m" and epoch: "\<not> Client_EpochChanged c m"
    using assms(1) by (simp_all add: well_fed_def client_inv_def)
  have send: "sendable FCancel corr []" using assms(2) by (simp add: sendable_def)
  obtain m' where m': "s' = (c, m')" "emit c FCancel kind corr [] m = (e, m')"
    using assms(2,3) by (auto simp: client_caller_bus_def Client_Cancel_def split: prod.splits)
  show ?thesis
  proof (cases "emit_error c [] m")
    case None
    with emit_ok [OF ok send None, of kind] m' show ?thesis
      by (auto simp: client_stream_def cancel_event_def)
  next
    case (Some x)
    then have "length (outbound c m) = unat (rCapacity (qpOutbound (cQp c)))"
      using epoch client_okD(1) [OF ok] by (auto simp: emit_error_def Client_EpochChanged_def split: if_splits)
    then show ?thesis using emit_refused [OF ok send Some, of kind] m' by auto
  qed
qed

lemma request_frags_nonempty: "request_frags budget stageID deadlineNS traceID request \<noteq> []"
  by (simp add: request_frags_def) (subst frag_list.simps, simp)

lemma zero_correlation_refused:
  "frs \<noteq> [] \<Longrightarrow> fst (send_list (cbRequestFragment client_caller_bus) kind 0 frs s) \<noteq> None"
  by (cases frs; cases s) (auto simp: client_caller_bus_def RequestFragment_def)

text \<open>The events under which a request appears in the outbound stream.\<close>

definition request_events :: "Client \<Rightarrow> u32 \<Rightarrow> u64 \<Rightarrow> (byte list \<times> bool) list \<Rightarrow> Event option list" where
  "request_events c kind corr = map (\<lambda>(p, has_more). Some
     \<lparr>evFrame = emit_frame c (if has_more then FRequest OR FMore else FRequest) kind corr p, evPayload = p\<rparr>)"

lemma send_request_stream:
  assumes "well_fed (c, m)" and "stageID \<noteq> 0" and "length request \<le> unat ModuleMessageMaxBody"
    and "ModuleMessageHeaderLen < unat (cInlineBudget c)"
    and "frs = request_frags (cInlineBudget c) stageID deadlineNS traceID request"
  obtains err m1 sent rest
    where "send client_caller_bus kind stageID traceID corr deadlineNS request (c, m) = Some (err, (c, m1))"
      and "frs = sent @ rest" and "err = None \<longleftrightarrow> rest = []" and "well_fed (c, m1)"
      and "client_incoming (c, m1) = client_incoming (c, m)"
      and "client_stream (c, m1) = client_stream (c, m) @ request_events c kind corr sent"
      and "corr = 0 \<longrightarrow> err \<noteq> None"
proof -
  have budget: "cbInlineBudget client_caller_bus (c, m) = cInlineBudget c"
    by (simp add: client_caller_bus_def moduleInlineBudget_def)
  obtain err s1 where run: "send_list (cbRequestFragment client_caller_bus) kind corr frs (c, m) = (err, s1)"
    by (metis surj_pair)
  obtain m1 where m1: "s1 = (c, m1)" "well_fed (c, m1)" "client_incoming (c, m1) = client_incoming (c, m)"
    using send_list_quiet [OF assms(1) run] by blast
  have "case (c, m) of (c, m) \<Rightarrow> client_ok c m" using assms(1) by (simp add: well_fed_def client_inv_def)
  from client_requests.send_list_stream [OF this run] obtain sent rest where sent:
    "frs = sent @ rest" "err = None \<longleftrightarrow> rest = []"
    "client_stream s1 = client_stream (c, m) @ map (\<lambda>(p, mo). fragment_event FRequest (c, m) kind corr p mo) sent"
    by blast
  have "map (\<lambda>(p, mo). fragment_event FRequest (c, m) kind corr p mo) sent = request_events c kind corr sent"
    by (simp add: request_events_def fragment_event_def)
  moreover have "send client_caller_bus kind stageID traceID corr deadlineNS request (c, m) = Some (err, s1)"
    using send_frags_list [OF assms(2,3), of client_caller_bus "(c, m)"] assms(4,5) run by (simp add: budget)
  moreover have "corr = 0 \<longrightarrow> err \<noteq> None"
  proof
    assume "corr = 0"
    moreover have "frs \<noteq> []" using request_frags_nonempty by (simp add: assms(5))
    ultimately show "err \<noteq> None" using zero_correlation_refused [of frs kind "(c, m)"] run by simp
  qed
  ultimately show thesis using sent m1 by (intro that [of err m1 sent rest]) simp_all
qed

text \<open>A call whose request is of a permitted size.\<close>

definition call_rounds :: "(nat \<Rightarrow> 's round) \<Rightarrow> bool \<Rightarrow> nat \<Rightarrow> 's round" where
  "call_rounds rounds ctxGiven = (if ctxGiven then rounds else (\<lambda>n. (rounds n)\<lparr>rdCtxErr := None\<rparr>))"

definition call_deadline :: "u64 \<Rightarrow> u64 \<Rightarrow> u64" where
  "call_deadline nowNS deadline = (if sint deadline > 0 then nowNS + deadline else 0)"

definition call_expiry :: "int \<Rightarrow> u64 \<Rightarrow> int option" where
  "call_expiry now deadline = (if sint deadline > 0 then Some (now + sint deadline) else None)"

lemma call_rounds_host [simp]: "rdHost (call_rounds rounds ctxGiven n) = rdHost (rounds n)"
  by (simp add: call_rounds_def)

lemma Call_sends:
  assumes "length request \<le> unat ModuleMessageMaxBody" and "mcClient mc = Some client"
    and "corr = mcCorrelation mc + 1"
    and "send client kind stageID traceID corr (call_deadline nowNS deadline) request s = Some (err, s1)"
  shows "Call rounds ctxGiven nowNS now kind stageID traceID deadline request (Some mc) s =
    (case err of
       Some e \<Rightarrow> Some (CallErr e, Some (mc\<lparr>mcCorrelation := corr\<rparr>), s1)
     | None \<Rightarrow> Option.bind (awaitReply client (mcResponseLimit mc) (call_rounds rounds ctxGiven) kind corr
           (call_expiry now deadline) [] 0 s1)
         (\<lambda>(r, _, s). Some (r, Some (mc\<lparr>mcCorrelation := corr\<rparr>),
            (case r of CallErr _ \<Rightarrow> snd (cbCancel client kind corr s) | _ \<Rightarrow> s))))"
proof -
  have "\<not> (of_nat (length request) :: u32) > ModuleMessageMaxBody"
    using body_len_small(2) [OF assms(1)] by simp
  then show ?thesis
    unfolding Call_def
    by (simp add: assms(2) Let_def assms(4) [unfolded assms(3) call_deadline_def] call_rounds_def call_expiry_def assms(3)
        split: option.split)
      (auto intro!: arg_cong [where f = "Option.bind _"] simp: fun_eq_iff assms(3) split: call_result.split prod.split)
qed

text \<open>C6: What a call leaves behind on a real client whose host keeps to the protocol. The call uses the next
  correlation. Either the request was refused part-way, then the call fails and the stream has a proper
  prefix of its fragments and nothing more; or all of it was sent, and then a failed call has put one
  cancel of its own correlation behind it, or found the outbound ring full, while a call that succeeds
  has sent nothing else.\<close>

theorem call_outcome:
  assumes "well_fed (c, m)" and "stageID \<noteq> 0" and "length request \<le> unat ModuleMessageMaxBody"
    and "ModuleMessageHeaderLen < unat (cInlineBudget c)"
    and "\<forall>n. client_events.host_feeds (rdHost (rounds n))"
    and "mcClient mc = Some client_caller_bus" and "corr = mcCorrelation mc + 1"
    and "frs = request_frags (cInlineBudget c) stageID (call_deadline nowNS deadline) traceID request"
    and "Call rounds ctxGiven nowNS now kind stageID traceID deadline request (Some mc) (c, m) = Some (r, mc', s')"
  shows "mc' = Some (mc\<lparr>mcCorrelation := corr\<rparr>) \<and>
     (\<exists>sent rest. frs = sent @ rest \<and>
        (if rest \<noteq> [] then (\<exists>e. r = CallErr e) \<and> client_stream s' = client_stream (c, m) @ request_events c kind corr sent
         else (\<exists>k cancel. client_stream s' = drop k (client_stream (c, m) @ request_events c kind corr sent) @ cancel
           \<and> (case r of
                CallBody _ \<Rightarrow> cancel = []
              | CallErr _ \<Rightarrow> cancel = [cancel_event c kind corr]
                  \<or> cancel = [] \<and> length (client_stream s') = unat (rCapacity (qpOutbound (cQp c)))
              | CallPanic \<Rightarrow> False))))"
proof -
  let ?d = "call_deadline nowNS deadline" and ?rounds = "call_rounds rounds ctxGiven"
  let ?expiry = "call_expiry now deadline"
  obtain err m1 sent rest where sent: "send client_caller_bus kind stageID traceID corr ?d request (c, m) = Some (err, (c, m1))"
    "frs = sent @ rest" "err = None \<longleftrightarrow> rest = []" "well_fed (c, m1)"
    "client_stream (c, m1) = client_stream (c, m) @ request_events c kind corr sent" "corr = 0 \<longrightarrow> err \<noteq> None"
    by (rule send_request_stream [OF assms(1-4,8), of kind corr])
  note call = Call_sends [OF assms(3,6,7) sent(1), of rounds ctxGiven now, unfolded assms(9)]
  show ?thesis
  proof (cases err)
    case (Some e)
    then have "r = CallErr e" "mc' = Some (mc\<lparr>mcCorrelation := corr\<rparr>)" "s' = (c, m1)"
      using call by simp_all
    then show ?thesis using sent(2,3,5) Some by (intro conjI exI [of _ sent] exI [of _ rest]) simp_all
  next
    case None
    obtain i' s2 where await: "awaitReply client_caller_bus (mcResponseLimit mc) ?rounds kind corr ?expiry [] 0 (c, m1)
        = Some (r, i', s2)"
      and res: "mc' = Some (mc\<lparr>mcCorrelation := corr\<rparr>)"
        "s' = (case r of CallErr _ \<Rightarrow> snd (cbCancel client_caller_bus kind corr s2) | _ \<Rightarrow> s2)"
      using call unfolding None option.case bind_eq_Some_conv [symmetric] eq_commute [of "Some _"]
      by (fastforce simp: bind_eq_Some_conv)
    have feeds: "client_events.host_feeds (rdHost (?rounds n))" for n using assms(5) by simp
    obtain evs where fed: "well_fed s2" "client_later (c, m1) s2"
      and why: "await_scan (mcResponseLimit mc) kind corr [] evs = Some (r, []) \<or> (\<exists>n. gives_up ?expiry (?rounds n) = Some r)"
      using client_events.await_sound [OF refl feeds await sent(4)] by blast
    have no_panic: "r \<noteq> CallPanic"
      using why await_scan_panic [of "mcResponseLimit mc" kind corr "[]" evs "[]"]
      by (auto simp: gives_up_def split: option.splits if_splits)
    obtain c2 m2 b k where s2: "s2 = (c2, m2)" "c2 = c\<lparr>cPendingRead := b\<rparr>"
      "client_stream s2 = drop k (client_stream (c, m) @ request_events c kind corr sent)"
      using fed(2) sent(5) by (cases s2) (auto simp: client_later_def)
    have same: "cancel_event c2 kind corr = cancel_event c kind corr" "cQp c2 = cQp c"
      by (simp_all add: s2(2) cancel_event_def emit_frame_def)
    have rest: "rest = []" "corr \<noteq> 0" "sent = frs" using sent None by simp_all
    define S where "S = client_stream (c, m) @ request_events c kind corr sent"
    have "\<exists>cancel. client_stream s' = drop k S @ cancel
         \<and> (case r of
              CallBody _ \<Rightarrow> cancel = []
            | CallErr _ \<Rightarrow> cancel = [cancel_event c kind corr]
                \<or> cancel = [] \<and> length (client_stream s') = unat (rCapacity (qpOutbound (cQp c)))
            | CallPanic \<Rightarrow> False)"
    proof (cases r)
      case (CallErr e)
      obtain e' s3 where cancel: "cbCancel client_caller_bus kind corr (c2, m2) = (e', s3)" by (metis surj_pair)
      then have s': "s' = s3" using res(2) by (simp add: CallErr s2(1))
      obtain m3 where m3: "s3 = (c2, m3)" "client_stream (c2, m3) = client_stream (c2, m2) @ [cancel_event c2 kind corr]
          \<or> m3 = m2 \<and> length (outbound c2 m2) = unat (rCapacity (qpOutbound (cQp c2)))"
        using cancel_stream [OF _ rest(2) cancel] fed(1) s2(1) by blast
      have "length (client_stream (c2, m2)) = length (outbound c2 m2)" by (simp add: client_stream_def)
      moreover have "client_stream (c2, m2) = drop k S" using s2(1,3) by (simp add: S_def)
      ultimately show ?thesis
        using m3 by (auto simp: CallErr s' same)
    next
      case (CallBody body)
      then show ?thesis using res(2) s2(3) by (simp add: S_def)
    next
      case CallPanic
      then show ?thesis using no_panic by simp
    qed
    then show ?thesis
      using res(1) sent(2) rest(1) unfolding S_def by (intro conjI exI [of _ sent] exI [of _ rest]) auto
  qed
qed

section \<open>Concrete rounds and a concrete stream\<close>

text \<open>A host that does nothing, with a clock that advances by one in every round.\<close>

definition idle_rounds :: "nat \<Rightarrow> 's round" where
  "idle_rounds n = \<lparr>rdHost = (\<lambda>s. s), rdCtxErr = None, rdNow = int n\<rparr>"

lemma idle_rounds_feed: "client_events.host_feeds (rdHost (idle_rounds n))"
  by (auto simp: client_events.host_feeds_def idle_rounds_def client_events.later_refl)

lemma idle_rounds_quiet: "client_events.host_quiet (rdHost (idle_rounds n))"
  by (simp add: client_events.host_quiet_def idle_rounds_def)

lemma idle_rounds_end: "t < int n \<Longrightarrow> gives_up (Some t) (idle_rounds n) = Some (CallErr ErrModuleCallDeadline)"
  by (simp add: gives_up_def idle_rounds_def)

lemma sample_expiry [simp]: "call_expiry 0 5 = Some 5" "call_rounds rounds True = rounds"
  by (simp_all add: call_expiry_def call_rounds_def)

lemma sample_well_fed: "well_fed (sample_client, sample_bus)" "client_incoming (sample_client, sample_bus) = []"
proof -
  have "\<not> cPendingRead sample_client" by (simp add: sample_client_def)
  then show "well_fed (sample_client, sample_bus)" "client_incoming (sample_client, sample_bus) = []"
    using sample_client_ok sample_epoch
    by (simp_all add: well_fed_def client_incoming_def client_inv_def unread_def)
qed

text \<open>A client that has one event to read, sent by its peer.\<close>

lemma sample_fed:
  assumes "sendable flags corr payload" and "length payload \<le> 192"
  obtains m where "well_fed (loop_client sample_client, m)"
    and "client_incoming (loop_client sample_client, m)
      = [\<lparr>evFrame = emit_frame sample_client flags kind corr payload, evPayload = payload\<rparr>]"
proof -
  obtain m item where m: "client_ok sample_client m" "outbound sample_client m = [item]" "bmCtl m = bmCtl sample_bus"
    "slot_event (cSlotSize sample_client) item
      = Some \<lparr>evFrame = emit_frame sample_client flags kind corr payload, evPayload = payload\<rparr>"
    using emit_ok [OF sample_client_ok(1) assms(1) sample_emit_error [OF assms(2)], of kind]
    by (auto simp: sample_client_ok)
  note loop = loop_client_ok [OF m(1)]
  have pending: "\<not> cPendingRead (loop_client sample_client)" by (simp add: loop(4)) (simp add: sample_client_def)
  have "\<not> Client_EpochChanged (loop_client sample_client) m"
    using loop(3) sample_epoch m(3) by (simp add: Client_EpochChanged_def)
  then show thesis
    using that [of m] loop m(2,4) emit_frame_no_wrap [OF m(4)] pending
    by (simp add: well_fed_def client_incoming_def client_inv_def unread_def)
qed

definition sample_caller :: "client_state ModuleCaller" where
  "sample_caller = newModuleCaller client_caller_bus"

lemma sample_caller_fields:
  "mcClient sample_caller = Some client_caller_bus" "mcCorrelation sample_caller = 0"
  "ModuleMessageHeaderLen < unat (cInlineBudget sample_client)"
  by (simp_all add: sample_caller_def newModuleCaller_def sample_client_def ModuleMessageHeaderLen_def)

section \<open>Properties\<close>

text \<open>C28: A call ends. Once the host has fallen silent and, from some round on, the deadline has passed or
  the context has ended, the call returns, whatever the host sent before.\<close>

theorem call_returns:
  assumes "well_fed (c, m)" and "stageID \<noteq> 0" and "length request \<le> unat ModuleMessageMaxBody"
    and "ModuleMessageHeaderLen < unat (cInlineBudget c)"
    and "\<forall>n. client_events.host_feeds (rdHost (rounds n))"
    and "\<forall>n\<ge>N. client_events.host_quiet (rdHost (rounds n))
           \<and> gives_up (call_expiry now deadline) (call_rounds rounds ctxGiven n) \<noteq> None"
    and "mcClient mc = Some client_caller_bus"
  shows "\<exists>r mc' s'. Call rounds ctxGiven nowNS now kind stageID traceID deadline request (Some mc) (c, m) = Some (r, mc', s')"
proof -
  obtain err m1 where sent: "send client_caller_bus kind stageID traceID (mcCorrelation mc + 1)
      (call_deadline nowNS deadline) request (c, m) = Some (err, (c, m1))" "well_fed (c, m1)"
    by (rule send_request_stream [OF assms(1-4) refl, where kind = kind and corr = "mcCorrelation mc + 1"
          and deadlineNS = "call_deadline nowNS deadline" and traceID = traceID])
  have "awaitReply client_caller_bus (mcResponseLimit mc) (call_rounds rounds ctxGiven) kind (mcCorrelation mc + 1)
      (call_expiry now deadline) [] 0 (c, m1) \<noteq> None"
    using assms(5,6) by (intro client_events.await_ends [OF refl _ _ sent(2), of _ N]) simp_all
  then show ?thesis
    unfolding Call_sends [OF assms(3,7) refl sent(1)] by (auto split: option.split)
qed

lemma call_returns_witness:
  "\<exists>r mc' s'. Call idle_rounds True 100 0 6401 1 7 5 [1, 2, 3] (Some sample_caller) (sample_client, sample_bus)
    = Some (r, mc', s')"
proof -
  have "\<forall>n\<ge>6. client_events.host_quiet (rdHost (idle_rounds n))
      \<and> gives_up (call_expiry 0 5) (call_rounds idle_rounds True n) \<noteq> None"
    by (simp add: idle_rounds_quiet idle_rounds_end)
  from call_returns [OF sample_well_fed(1) _ _ sample_caller_fields(3) _ this sample_caller_fields(1),
      of 1 "[1, 2, 3]" 100 6401 7] idle_rounds_feed
  show ?thesis by (simp add: ModuleMessageMaxBody_def)
qed

lemma call_outcome_witness:
  "\<exists>r s'. Call idle_rounds True 100 0 6401 1 7 5 [1, 2, 3] (Some sample_caller) (sample_client, sample_bus)
    = Some (r, Some (sample_caller\<lparr>mcCorrelation := 1\<rparr>), s')"
proof -
  have feed: "\<forall>n. client_events.host_feeds (rdHost (idle_rounds n))" using idle_rounds_feed by blast
  have size: "length [1, 2, 3 :: byte] \<le> unat ModuleMessageMaxBody" by (simp add: ModuleMessageMaxBody_def)
  have stage: "(1 :: u32) \<noteq> 0" by simp
  obtain err m1 where sent: "send client_caller_bus 6401 1 7 1 (call_deadline 100 5) [1, 2, 3] (sample_client, sample_bus)
      = Some (err, (sample_client, m1))" "well_fed (sample_client, m1)"
    by (rule send_request_stream [OF sample_well_fed(1) stage size sample_caller_fields(3) refl,
          where kind = 6401 and corr = 1 and deadlineNS = "call_deadline 100 5" and traceID = 7])
  have "awaitReply client_caller_bus (mcResponseLimit sample_caller) (call_rounds idle_rounds True) 6401 1
      (call_expiry 0 5) [] 0 (sample_client, m1) \<noteq> None"
    by (rule client_events.await_ends [OF refl _ _ sent(2), of _ 6])
      (simp_all add: idle_rounds_feed idle_rounds_quiet idle_rounds_end)
  then obtain r mc' s' where run: "Call idle_rounds True 100 0 6401 1 7 5 [1, 2, 3] (Some sample_caller) (sample_client, sample_bus)
      = Some (r, mc', s')"
    using Call_sends [OF size sample_caller_fields(1) refl, of 6401 1 7 100 5 "(sample_client, sample_bus)" err "(sample_client, m1)"
        idle_rounds True 0] sent(1)
    by (auto simp: sample_caller_fields(2) split: option.splits)
  from call_outcome [OF sample_well_fed(1) stage size sample_caller_fields(3) feed sample_caller_fields(1) _ refl run]
    run sample_caller_fields(2)
  show ?thesis by auto
qed

text \<open>C15: The wait for the result is a fold over the events of the client in the order in which they
  arrive, whatever the host adds meanwhile: the events taken are a prefix of those that were there and
  those that were added, nothing is lost or read twice, and the outcome is the verdict of the last event
  taken, or that of a round that found no event while the context had ended or the deadline had
  passed.\<close>

theorem await_refines:
  assumes "well_fed s" and "\<forall>n. client_events.host_feeds (rdHost (rounds n))"
    and "awaitReply client_caller_bus limit rounds kind corr expiry [] i s = Some (r, i', s')"
  shows "\<exists>evs new. client_incoming s @ new = evs @ client_incoming s' \<and> well_fed s' \<and> client_later s s'
     \<and> (await_scan limit kind corr [] evs = Some (r, [])
        \<or> await_scan limit kind corr [] evs = None \<and> client_incoming s' = []
          \<and> (\<exists>n. i' = Suc n \<and> gives_up expiry (rounds n) = Some r))"
  using client_events.await_sound [OF refl _ assms(3,1)] assms(2) by simp

lemma await_refines_witness:
  "\<exists>r i' s'. awaitReply client_caller_bus 100 idle_rounds 6401 1 (Some 3) [] 0 (sample_client, sample_bus) = Some (r, i', s')
     \<and> well_fed s'"
proof -
  have "awaitReply client_caller_bus 100 idle_rounds 6401 1 (Some 3) [] 0 (sample_client, sample_bus) \<noteq> None"
    by (rule client_events.await_ends [OF refl _ _ sample_well_fed(1), of _ 4])
      (simp_all add: idle_rounds_feed idle_rounds_quiet idle_rounds_end)
  then obtain r i' s' where run: "awaitReply client_caller_bus 100 idle_rounds 6401 1 (Some 3) [] 0 (sample_client, sample_bus)
      = Some (r, i', s')" by auto
  from await_refines [OF sample_well_fed(1) _ run] idle_rounds_feed run show ?thesis by auto
qed

lemma reply_to_result:
  assumes "well_fed s" and "\<forall>n. client_events.host_feeds (rdHost (rounds n))"
    and "reply_outcome status body = (st, b)" and "stageID \<noteq> 0"
    and "kind \<noteq> KindCapabilityAbsent" and "kind \<noteq> KindError"
    and "list_all2 (reply_event kind corr) (reply_frags budget stageID traceID st b)
       (filter (\<lambda>ev. \<not> unrelated kind corr ev) (client_incoming s))"
  shows "\<exists>i' s'. awaitReply client_caller_bus ModuleMessageMaxBody rounds kind corr expiry [] i s
     = Some (if st = ModuleStatusOK then CallBody b else CallErr (ModuleCallStatusError st), i', s') \<and> well_fed s'"
proof -
  obtain ys p where ys: "frag_list (unat budget - ModuleMessageHeaderLen) b = ys @ [(p, False)]" "\<forall>y\<in>set ys. snd y"
    using frag_list_flags by blast
  have b: "concat (map fst (ys @ [(p, False)])) = b"
    using frag_list_join [of "unat budget - ModuleMessageHeaderLen" b] by (simp only: ys(1))
  note ok = reply_outcome_ok [OF assms(3)]
  obtain rest where "await_scan ModuleMessageMaxBody kind corr [] (filter (\<lambda>ev. \<not> unrelated kind corr ev) (client_incoming s))
      = Some (if st = ModuleStatusOK then CallBody b else CallErr (ModuleCallStatusError st), rest)"
    using await_scan_reply [OF assms(7) [unfolded reply_frags_def ys(1)] ys(2) assms(5,6) ok(1) assms(4), of "[]"] ok(2)
    unfolding b by auto
  from await_scan_filter [OF this] obtain rest' where
    "await_scan ModuleMessageMaxBody kind corr [] (client_incoming s)
      = Some (if st = ModuleStatusOK then CallBody b else CallErr (ModuleCallStatusError st), rest')"
    by blast
  from client_events.await_decided [OF refl _ this assms(1), of rounds "[]"] assms(2)
  show ?thesis by (metis append_Nil2)
qed

text \<open>C8: From a reply to the result of the call. When the events of the call among those to be read are the
  fragments of the reply to it, in order and with any other traffic in between, the wait ends with the
  body the handler answered, or with its status when it failed, whatever the host adds meanwhile.\<close>

theorem reply_reassembled:
  assumes "well_fed s" and "\<forall>n. client_events.host_feeds (rdHost (rounds n))"
    and "reply_outcome status body = (st, b)" and "stageID \<noteq> 0"
    and "kind \<noteq> KindCapabilityAbsent" and "kind \<noteq> KindError"
    and "list_all2 (reply_event kind corr) (reply_frags budget stageID traceID st b)
       (filter (\<lambda>ev. \<not> unrelated kind corr ev) (client_incoming s))"
  shows "\<exists>i' s'. awaitReply client_caller_bus ModuleMessageMaxBody rounds kind corr expiry [] i s
     = Some (if st = ModuleStatusOK then CallBody b else CallErr (ModuleCallStatusError st), i', s') \<and> well_fed s'"
  using assms by (rule reply_to_result)

lemma reply_reassembled_witness:
  "\<exists>s i' s'. awaitReply client_caller_bus ModuleMessageMaxBody idle_rounds 6401 9 None [] 0 s
     = Some (CallBody [1, 2, 3], i', s')"
proof -
  have out: "reply_outcome ModuleStatusOK [1, 2, 3] = (ModuleStatusOK, [1, 2, 3])"
    by (simp add: reply_outcome_def validModuleStatus_def go_const)
  let ?p = "result_payload 1 7 ModuleStatusOK [1, 2, 3]"
  have len: "length ?p \<le> 192" by (simp add: result_payload_def ModuleMessageHeaderLen_def)
  have send: "sendable FReply 9 ?p" by (simp add: sendable_def)
  obtain m where m: "well_fed (loop_client sample_client, m)" "client_incoming (loop_client sample_client, m)
      = [\<lparr>evFrame = emit_frame sample_client FReply 6401 9 ?p, evPayload = ?p\<rparr>]"
    by (rule sample_fed [OF send len])
  have frags: "reply_frags 192 1 7 ModuleStatusOK [1, 2, 3] = [(?p, False)]"
    by (simp add: reply_frags_def frag_list.simps ModuleMessageHeaderLen_def)
  have "fHdrFlags (emit_frame sample_client FReply 6401 9 ?p) AND FMore = 0"
    by (simp add: emit_frame_def zero_frame_def Let_def go_const)
  then have replies: "list_all2 (reply_event 6401 9) (reply_frags 192 1 7 ModuleStatusOK [1, 2, 3])
      (filter (\<lambda>ev. \<not> unrelated 6401 9 ev) (client_incoming (loop_client sample_client, m)))"
    unfolding frags m(2) by (simp add: unrelated_def reply_event_def Let_def)
  have "\<forall>n. client_events.host_feeds (rdHost (idle_rounds n))" using idle_rounds_feed by blast
  from reply_reassembled [OF m(1) this out _ _ _ replies, of None 0]
  show ?thesis
    by (intro exI [of _ "(loop_client sample_client, m)"]) (auto simp: KindCapabilityAbsent_def KindError_def)
qed

text \<open>
  The other side of the queue pair sends a notification whenever the client has nothing left to read. It
  always has the room for it: a ring has at least two slots and at most one is still given out.
\<close>

definition peer_notifies :: "client_state \<Rightarrow> client_state" where
  "peer_notifies s =
    (if client_incoming s = []
     then (fst s, snd (emit (loop_client (fst s)) FNotification 0 0 [] (snd s)))
     else s)"

lemma peer_notifies_adds:
  assumes "well_fed s"
  shows "well_fed (peer_notifies s) \<and> client_later s (peer_notifies s)
     \<and> (\<exists>new. client_incoming (peer_notifies s) = client_incoming s @ new
          \<and> (\<forall>ev\<in>set new. fCorrelationID (evFrame ev) = 0) \<and> (client_incoming s = [] \<longrightarrow> new \<noteq> []))"
proof (cases "client_incoming s = []")
  case False
  then show ?thesis using assms client_events.later_refl by (simp add: peer_notifies_def)
next
  case True
  obtain c m where s: "s = (c, m)" by fastforce
  let ?peer = "loop_client c"
  have iv: "client_inv c m" "\<not> Client_EpochChanged c m" "unread c m = []"
    using assms True by (simp_all add: well_fed_def client_incoming_def s)
  then have ok: "client_ok c m" by (simp add: client_inv_def)
  note loop = loop_client_ok [OF ok]
  have epoch: "Control_Epoch (bmCtl m) = cAttachedEpoch ?peer"
    using iv(2) ok by (simp add: Client_EpochChanged_def client_ok_def loop_client_def)
  have twice: "outbound ?peer m' = inbound c m'" "inbound ?peer m' = outbound c m'" for m'
    by (simp_all add: loop_client_def inbound_def outbound_def)
  have "length (inbound c m) \<le> 1"
    using iv(1,3) by (cases "inbound c m") (auto simp: unread_def client_inv_def split: if_splits)
  moreover have "2 \<le> unat (rCapacity (qpInbound (cQp c)))"
  proof -
    have "ring_ok (qpInbound (cQp c)) (bmQp m)" using ok by (simp add: client_ok_def qp_ok_def)
    then obtain k where k: "1 \<le> k" "k < 32" "rCapacity (qpInbound (cQp c)) = 2 ^ k"
      by (auto simp: ring_ok_def ring_geometry_def)
    then have "unat (rCapacity (qpInbound (cQp c))) = 2 ^ k" by (simp add: power_word_unat)
    moreover have "(2 :: nat) ^ 1 \<le> 2 ^ k" using k(1) by (intro power_increasing) simp_all
    ultimately show ?thesis by simp
  qed
  ultimately have none: "emit_error ?peer [] m = None"
    by (simp add: emit_error_def epoch twice(1)) (simp add: loop_client_def)
  have "sendable FNotification 0 []" by (simp add: sendable_def)
  from emit_ok [OF loop(1) this none, of 0] obtain m' item where m':
    "emit ?peer FNotification 0 0 [] m = (None, m')" "client_ok ?peer m'" "inbound c m' = inbound c m @ [item]"
    "outbound c m' = outbound c m" "bmCtl m' = bmCtl m"
    "slot_event (cSlotSize c) item = Some \<lparr>evFrame = emit_frame ?peer FNotification 0 0 [], evPayload = []\<rparr>"
    by (auto simp: twice loop(5))
  have fine: "client_ok c m'"
  proof -
    have "loop_client ?peer = c" by (simp add: loop_client_def)
    then show ?thesis using loop_client_ok(1) [OF m'(2)] by simp
  qed
  have unread: "unread c m' = [item]"
    using iv(1,3) m'(3) by (cases "inbound c m") (auto simp: unread_def client_inv_def split: if_splits)
  have "well_fed (c, m')"
    using fine iv m'(5,6) emit_frame_no_wrap [OF m'(6)] unread
    by (auto simp: well_fed_def client_inv_def m'(3) Client_EpochChanged_def)
  moreover have "client_later s (c, m')"
    by (auto simp: client_later_def s client_stream_def m'(4) intro: exI [of _ "cPendingRead c"] exI [of _ 0])
  moreover have "client_incoming (c, m') = [\<lparr>evFrame = emit_frame ?peer FNotification 0 0 [], evPayload = []\<rparr>]"
    by (simp add: client_incoming_def unread m'(6))
  moreover have "peer_notifies s = (c, m')" using True by (simp add: peer_notifies_def s m'(1))
  ultimately show ?thesis using True by (simp add: emit_frame_def zero_frame_def Let_def)
qed

text \<open>C36: Deadline and context are only looked at when a poll finds no event. When the request has been
  accepted and what there is to read has nothing to do with the call, and the host, which only ever adds
  events, adds no other ones and at least one whenever there is none left, then the call does not
  return, however long its deadline has passed and its context has ended.\<close>

theorem busy_stream_starves_deadline:
  assumes "well_fed (c, m)" and "stageID \<noteq> 0" and "length request \<le> unat ModuleMessageMaxBody"
    and "ModuleMessageHeaderLen < unat (cInlineBudget c)"
    and "mcClient mc = Some client_caller_bus" and "corr = mcCorrelation mc + 1"
    and "send client_caller_bus kind stageID traceID corr (call_deadline nowNS deadline) request (c, m) = Some (None, s1)"
    and "\<forall>ev\<in>set (client_incoming (c, m)). unrelated kind corr ev"
    and "\<forall>n. client_events.host_feeds (rdHost (rounds n))"
    and "\<forall>n s. well_fed s \<longrightarrow> (\<exists>new. client_incoming (rdHost (rounds n) s) = client_incoming s @ new
          \<and> (\<forall>ev\<in>set new. unrelated kind corr ev) \<and> (client_incoming s = [] \<longrightarrow> new \<noteq> []))"
  shows "Call rounds ctxGiven nowNS now kind stageID traceID deadline request (Some mc) (c, m) = None"
proof -
  obtain err m1 where "send client_caller_bus kind stageID traceID corr (call_deadline nowNS deadline) request (c, m)
      = Some (err, (c, m1))" "well_fed (c, m1)" "client_incoming (c, m1) = client_incoming (c, m)"
    by (rule send_request_stream [OF assms(1-4) refl, where kind = kind and corr = corr
          and deadlineNS = "call_deadline nowNS deadline" and traceID = traceID])
  then have start: "well_fed s1" "\<forall>ev\<in>set (client_incoming s1). unrelated kind corr ev"
    using assms(7,8) by simp_all
  have "awaitReply cl limit rs k cr expiry body i s = Some t \<Longrightarrow>
      cl = client_caller_bus \<longrightarrow> k = kind \<longrightarrow> cr = corr \<longrightarrow> rs = call_rounds rounds ctxGiven \<longrightarrow> well_fed s \<longrightarrow>
      (\<forall>ev\<in>set (client_incoming s). unrelated kind corr ev) \<longrightarrow> False"
    for cl limit rs k cr expiry body i s t
  proof (induction rule: awaitReply.raw_induct [rotated, consumes 1])
    case (1 rec cl limit rs k cr expiry body i s t)
    show ?case
    proof (intro impI)
      assume eqs: "cl = client_caller_bus" "k = kind" "cr = corr" "rs = call_rounds rounds ctxGiven"
        and s: "well_fed s" "\<forall>ev\<in>set (client_incoming s). unrelated kind corr ev"
      let ?h = "rdHost (rounds i) s"
      obtain new where new: "client_incoming ?h = client_incoming s @ new"
        "\<forall>ev\<in>set new. unrelated kind corr ev" "client_incoming s = [] \<longrightarrow> new \<noteq> []"
        using assms(10) s(1) by blast
      have fed: "well_fed ?h" using assms(9) s(1) unfolding client_events.host_feeds_def by blast
      obtain ev rest where h: "client_incoming ?h = ev # rest"
        using new by (cases "client_incoming s @ new") auto
      have skip: "\<forall>ev\<in>set (client_incoming ?h). unrelated kind corr ev" using new s(2) by auto
      obtain res s' where run: "cbPoll client_caller_bus ?h = (res, s')" by (metis surj_pair)
      have poll: "res = PollEvent ev" "well_fed s'" "client_incoming s' = rest"
        using client_events.takes [OF fed h run] by simp_all
      have "rec client_caller_bus limit (call_rounds rounds ctxGiven) kind corr expiry body (Suc i) s' = Some t"
        using 1(2) skip by (simp add: eqs run poll(1) h unrelated_skip)
      from 1(1) [OF this] poll(2,3) skip show False by (simp add: h)
    qed
  qed
  then have "awaitReply client_caller_bus (mcResponseLimit mc) (call_rounds rounds ctxGiven) kind corr
      (call_expiry now deadline) [] 0 s1 = None"
    using start by (metis not_Some_eq)
  then show ?thesis by (simp add: Call_sends [OF assms(3,5,6,7)])
qed

text \<open>A context that has ended and a deadline long past.\<close>

definition busy_rounds :: "nat \<Rightarrow> client_state round" where
  "busy_rounds n = \<lparr>rdHost = peer_notifies, rdCtxErr = Some CtxErr, rdNow = 1000000\<rparr>"

lemma busy_stream_starves_deadline_witness:
  "Call busy_rounds True 100 0 6401 1 7 5 [1, 2, 3] (Some sample_caller) (sample_client, sample_bus) = None"
proof -
  have stage: "(1 :: u32) \<noteq> 0" and size: "length [1, 2, 3 :: byte] \<le> unat ModuleMessageMaxBody"
    by (simp_all add: ModuleMessageMaxBody_def)
  have one: "request_frags (cInlineBudget sample_client) 1 (call_deadline 100 5) 7 [1, 2, 3]
      = [(request_payload 1 (call_deadline 100 5) 7 [1, 2, 3], False)]"
    by (simp add: request_frags_def frag_list.simps ModuleMessageHeaderLen_def sample_client_def)
  let ?p = "request_payload 1 (call_deadline 100 5) 7 [1, 2, 3]"
  have "length ?p \<le> 192" by (simp add: request_payload_def ModuleMessageHeaderLen_def)
  then obtain m1 where "emit sample_client FRequest 6401 1 ?p sample_bus = (None, m1)"
    using emit_ok [OF sample_client_ok(1) _ sample_emit_error, of FRequest 1 ?p 6401] by (auto simp: sendable_def)
  then have sent: "send client_caller_bus 6401 1 7 1 (call_deadline 100 5) [1, 2, 3] (sample_client, sample_bus)
      = Some (None, (sample_client, m1))"
    using send_frags_list [OF stage size, of client_caller_bus "(sample_client, sample_bus)" 6401 7 1 "call_deadline 100 5"]
      sample_caller_fields(3) one
    by (simp add: client_caller_bus_def moduleInlineBudget_def RequestFragment_def)
  have feeds: "\<forall>n. client_events.host_feeds (rdHost (busy_rounds n))"
    using peer_notifies_adds by (fastforce simp: client_events.host_feeds_def busy_rounds_def)
  have busy: "\<forall>n s. well_fed s \<longrightarrow> (\<exists>new. client_incoming (rdHost (busy_rounds n) s) = client_incoming s @ new
      \<and> (\<forall>ev\<in>set new. unrelated 6401 1 ev) \<and> (client_incoming s = [] \<longrightarrow> new \<noteq> []))"
    using peer_notifies_adds by (fastforce simp: busy_rounds_def unrelated_def)
  have "(1 :: u64) = mcCorrelation sample_caller + 1" by (simp add: sample_caller_fields(2))
  from busy_stream_starves_deadline [OF sample_well_fed(1) stage size sample_caller_fields(3,1) this sent _ feeds busy]
  show ?thesis by (simp add: sample_well_fed(2))
qed

end
