(* ===== verification/Process.thy ===== *)
theory Process
  imports Routing Serve
begin

text \<open>
  The process: \<open>main\<close> of \<open>runtime/main.go\<close> and what surrounds the main loop in \<open>RunModuleProcess\<close>.
  The command line, the schedule of the connection attempts and whether a signal has ended the
  context are the inputs; the outcome is the exit status, or the loop that the process enters.
\<close>

section \<open>The program\<close>

type_synonym route_handler =
  "ModuleInvocation \<Rightarrow> byte list \<Rightarrow> moment \<Rightarrow> moment \<Rightarrow> Selector \<Rightarrow> (byte list \<times> ModuleStatus) \<times> Selector"

definition process_config :: "string \<Rightarrow> route_handler ModuleProcessConfig" where
  "process_config socket = \<lparr>cfgSocketPath = socket, cfgModuleName = ''routing'', cfgPrincipalClass = 1,
     cfgPrincipalRef = 9, cfgStages = [\<lparr>stEventKind = 6401, stStageID = 1\<rparr>], cfgHandler = Some Handle\<rparr>"

datatype program = Exit nat | Serving client_state "u32 \<rightharpoonup> u32" bool | Blocked

definition exit_code :: "error option \<Rightarrow> nat" where
  "exit_code err = (case err of None \<Rightarrow> 0 | Some _ \<Rightarrow> 1)"

definition main :: "(nat \<Rightarrow> attempt) \<Rightarrow> bool \<Rightarrow> string list \<Rightarrow> program" where
  "main atts ctxEnded args =
    (if length args \<noteq> 2 then Exit 2
     else
      let config = process_config (args ! 1)
      in case RunModuleProcess atts True ctxEnded config of
           ProcessReturns err \<Rightarrow> Exit (exit_code err)
         | ProcessServes (client, stages) \<Rightarrow> Serving client stages (cfgHandler config \<noteq> None)
         | ProcessHangs \<Rightarrow> Blocked)"

text \<open>The end of the loop: the deferred \<open>Detach\<close>, and the exit status that \<open>main\<close> makes of the error.\<close>

definition process_end :: "phase \<times> client_state serve \<Rightarrow> (nat \<times> Client \<times> os_event list) option" where
  "process_end st =
    (case st of
       (Stopped err, sv) \<Rightarrow> (case Detach (fst (svBus sv)) of (c, log) \<Rightarrow> Some (exit_code err, c, log))
     | _ \<Rightarrow> None)"

section \<open>What the program serves\<close>

lemma process_stages: "validateModuleConfig (process_config socket) =
    (if socket = [] then Inl ErrModuleConfig else Inr [EventKind \<mapsto> StageSelect])"
  by (simp add: validateModuleConfig_def process_config_def EventKind_def StageSelect_def)

lemma connect_result_given:
  assumes "connect_attempt a cl ref = (Some (res, err), log)"
  shows "err = None \<longrightarrow> res \<noteq> None"
proof
  assume none: "err = None"
  show "res \<noteq> None"
  proof (cases "atSocket a")
    case (Inr fd)
    then have att: "atConnect a = None" and "\<exists>log. AttachAs (atAttach a) cl ref = (res, None, log)"
      using assms none by (auto simp: connect_attempt_def split: option.splits prod.splits if_splits)
    then show ?thesis unfolding attach_success by auto
  qed (use assms none in \<open>simp add: connect_attempt_def\<close>)
qed

lemma connectModule_result:
  assumes "connectModule atts config = Some (res, err, log)"
  shows "err = None \<longrightarrow> res \<noteq> None"
proof -
  obtain n where "fst (connect_attempt (atts n) (cfgPrincipalClass config) (cfgPrincipalRef config)) = Some (res, err)"
    using assms unfolding connectModule_def connect_from_iff by blast
  then show ?thesis
    using connect_result_given [of "atts n" "cfgPrincipalClass config" "cfgPrincipalRef config" res err]
    by (metis prod.collapse)
qed

section \<open>Properties\<close>

text \<open>C25: The program from the command line to the loop. It refuses every command line but one argument with
  status 2, and an empty socket path with status 1 before it connects. Otherwise it waits until the
  connection loop returns: a failed attach is status 1, or 0 when a signal had already ended the context,
  and after a successful attach it serves, with a handler, exactly the routing kind with the
  selection stage.\<close>

theorem main_spec:
  "main atts ctxEnded args =
    (if length args \<noteq> 2 then Exit 2
     else if args ! 1 = [] then Exit 1
     else case connectModule atts (process_config (args ! 1)) of
            None \<Rightarrow> Blocked
          | Some (client, err, log) \<Rightarrow>
             (case err of
                Some e \<Rightarrow> Exit (if ctxEnded then 0 else 1)
              | None \<Rightarrow> Serving (the client) [EventKind \<mapsto> StageSelect] True))"
proof -
  have given: "client \<noteq> None" if "connectModule atts (process_config (args ! 1)) = Some (client, None, log)" for client log
    using connectModule_result [OF that] by simp
  have handler: "cfgHandler (process_config socket) \<noteq> None" for socket by (simp add: process_config_def)
  show ?thesis
    using given by (auto simp: main_def RunModuleProcess_def process_stages handler exit_code_def Let_def
        split: option.split prod.split)
qed

text \<open>Leaving the loop releases the shared memory. When the loop has ended, the program exits with status 0
  unless the loop returned an error; the regions the client holds are each unmapped once, and the
  client that is left holds none.\<close>

theorem process_end_releases:
  "process_end (ph, sv) =
    (case ph of
       Stopped err \<Rightarrow> Some (if err = None then 0 else 1, fst (Detach (fst (svBus sv))), snd (Detach (fst (svBus sv))))
     | _ \<Rightarrow> None)
   \<and> unmapped (snd (Detach (fst (svBus sv)))) = held (Some (svBus sv))
   \<and> held (Some (fst (Detach (fst (svBus sv))), snd (svBus sv))) = {#}"
  by (auto simp: process_end_def exit_code_def Detach_def held_def ledger_simps split: phase.split option.split prod.split)

end
