(* ===== verification/Spec2Isabelle.thy ===== *)
theory Spec2Isabelle
  imports RoutingC Overload Loop Detail Calls Process
begin

text \<open>
  A verification development for the aimee routing module.

  The program. A Go process (\<open>runtime/main.go\<close>) attaches to the shared-memory event bus of a daemon and
  serves one stage, the choice among equal route candidates. A client of the bus owns three mapped regions
  and two single-producer single-consumer rings; every message is one fixed-size slot with a 64-byte frame
  header, and module calls put a 40-byte envelope in front of their body and cut it into fragments. A second
  half of the package lets a Go process call such a stage. The development follows the code of
  \<open>server-go/\<close> and \<open>runtime/\<close>, file by file, from the bytes up.

  Theories and what they model.

  \<^item> \<open>Prelude\<close>, \<open>LittleEndian\<close>: machine words, the error values and \<open>errors.Is\<close>, buffers, the byte
    codec, and the locale \<open>header_codec\<close> of which both codecs are instances.
  \<^item> \<open>Wire\<close> (\<open>bus/wire.go\<close>): the frame, \<open>Validate\<close>, \<open>Encode\<close>, \<open>Decode\<close>, \<open>CheckPlacement\<close>.
  \<^item> \<open>ModuleProtocol\<close> (\<open>bus/module_protocol.go\<close>): the envelope of a module call.
  \<^item> \<open>Ring\<close> (\<open>bus/ring.go\<close>): the ring over the bytes of its region; a refinement of a bounded queue, and
    the two sides as a step relation with every interleaving of their loads and stores.
  \<^item> \<open>Region\<close> (\<open>bus/region.go\<close>, \<open>qpairBytes\<close>): the control page and the pair of rings.
  \<^item> \<open>Client\<close>, \<open>Attach\<close> (\<open>bus/client.go\<close>): sending, receiving, liveness, the attach handshake and its
    mappings, detaching.
  \<^item> \<open>Connect\<close> (\<open>bus/client_connect.go\<close>, \<open>connectModule\<close>): the retry loop and the heartbeat goroutine.
  \<^item> \<open>Invocation\<close>, \<open>Routing\<close> (\<open>modules/routing/routing.go\<close>): cancellation and the selector; \<open>RoutingC\<close>:
    the C fixture it mirrors (\<open>src/modules/routing/module_adapter.c\<close>, \<open>module_api.h\<close>).
  \<^item> \<open>Bus\<close>, \<open>Inbound\<close>: the interfaces \<open>moduleBus\<close> and \<open>callerBus\<close> as records of operations, their laws as
    the locales \<open>outbound_stream\<close> and \<open>event_source\<close>, and the client as an interpretation of each.
  \<^item> \<open>Reply\<close>, \<open>Serve\<close> (\<open>bus/module_runtime.go\<close>): \<open>replyModuleResult\<close> with its waits for room; the
    configuration, \<open>runHandler\<close>, one event of the main loop on every branch (\<open>handle_event\<close>), and the loop
    with its goroutines as the step relation \<open>serve_step\<close>. \<open>Runtime\<close>, \<open>Overload\<close> and, over a
    real client, \<open>Loop\<close> hold what is proved of it. \<open>Detail\<close> (\<open>moduleDetail\<close>): what a failing handler leaves
    in the log, with the UTF-8 decoder it uses.
  \<^item> \<open>Caller\<close> (\<open>bus/module_caller.go\<close>): \<open>send\<close>, \<open>awaitReply\<close>, \<open>Call\<close>; \<open>Calls\<close> proves their properties.
  \<^item> \<open>Process\<close> (\<open>runtime/main.go\<close>): \<open>main\<close>, its configuration and exit status.
  \<^item> This theory: the whole way of a call, from the bytes of a request to the handler and back.

  State. A Go struct is a record with the fields of the struct; shared memory is a byte list that every
  operation takes and returns; a Go map is an association list with distinct keys; a channel is the list of
  what it holds and the goroutines are the list of those that have not posted yet; a \<open>cancelFlag\<close>, shared by
  pointer, is an address into a store. Machine integers are words of their width and wrap as in Go. An
  error return is a value of \<open>error\<close>, a run-time panic a value of its own.

  Loops. A loop that ends by itself is a total function. One that waits for the host (\<open>connectModule\<close>,
  \<open>replyModuleResult\<close>, \<open>awaitReply\<close>) is a partial function over a schedule, a function from the number of
  a round to what the host, the clock and the context do in it; not returning is the value \<open>None\<close>, and that
  a loop returns is a theorem: \<open>connect_module_iff\<close>, \<open>reply_terminates\<close>, \<open>call_returns\<close>, and \<open>stopping_ends\<close>
  for the shutdown of the main loop. No fuel is used. A reply is modelled as one step of the main loop, in
  which the host may act at every wait; goroutines that post meanwhile are steps before or after it, which
  makes no difference since a reply looks at neither the tables nor the channel.

  What the lemmas show. The codecs accept exactly the encodings of valid values; the ring is a queue under
  every interleaving; a send appends one slot or changes nothing, a poll takes one; the handshake leaks
  neither descriptors nor mappings; the selector does what its C fixture does, is fair, and answers in
  range; the runtime keeps its tables within sixteen entries, owes exactly one result per job, starts a job
  exactly for a complete valid request, reports cancellation and lateness, and can always shut down; a
  reply and a request reach the other side as they were given, in order; a failed call is followed by its
  cancel. Five theorems show where the code falls short: \<open>poll_panics_iff\<close>, \<open>refused_tail_is_run\<close>,
  \<open>interrupted_reply_fails\<close>, \<open>busy_stream_starves_deadline\<close>, and \<open>partial_call_is_abandoned\<close> with \<open>abandoned_requests_block\<close>.

  Assumptions about the host, always visible as hypotheses: it lays the regions out with the geometry it
  announced (\<open>host_layout\<close>, \<open>client_ok\<close>), it takes from the outbound stream and adds to the inbound one
  without disturbing the rest (\<open>host_reads\<close>, \<open>host_feeds\<close>), and, for the receiving half of a call, it fills
  slots with valid frames (\<open>well_fed\<close>). What it forwards between two clients is not code of this
  repository; the theorems that join both ends say which events arrive. The system calls and the parsers of
  \<open>golang.org/x/sys/unix\<close> are the parameters \<open>attach_os\<close> and \<open>attempt\<close>; the descriptors that \<open>Recvmsg\<close>
  installs are apart from those the code parses, and \<open>delivers\<close> says that the control buffer lists them.

  Simplifications. The host does nothing between two fragments of one request (\<open>send_from\<close>), so a send that
  a host could have helped by reading in time counts as refused; the main loop may still poll after the
  context has ended, and \<open>main\<close> takes the end of the context as an input of its own: both allow more than
  the code does. \<open>CtxErr\<close> stands for both errors a context can have.

  Not modelled. The fixed text of the log line, the messages on standard error and
  \<open>Error\<close> of \<open>ModuleCallStatusError\<close> (text only); the length of sleeps; fields of the shared headers that
  no code reads; the memory of the Go process itself. The daemon-side routing in C
  (\<open>src/modules/routing/routing.c\<close>) is not part of the Go program and is written against headers and a JSON
  library outside the repository. Tests, build files and documentation have no program logic.
\<close>

unbundle bit_operations_syntax

section \<open>From the caller to the server\<close>

text \<open>The request a caller makes, as the server sees it.\<close>

definition call_request :: "u32 \<Rightarrow> u64 \<Rightarrow> u32 \<Rightarrow> u64 \<Rightarrow> u64 \<Rightarrow> request" where
  "call_request kind corr stageID deadlineNS traceID = \<lparr>rqKind = kind, rqCorr = corr, rqStage = stageID,
     rqDeadline = deadlineNS, rqTrace = traceID\<rparr>"

lemma sent_fragment:
  assumes "stages kind = Some stageID" and "stageID \<noteq> 0" and "length p \<le> unat ModuleMessageMaxBody"
    and "q = request_payload stageID deadlineNS traceID p"
    and "ev = \<lparr>evFrame = emit_frame c (if has_more then FRequest OR FMore else FRequest) kind corr q, evPayload = q\<rparr>"
  shows "is_fragment stages (call_request kind corr stageID deadlineNS traceID) p has_more ev"
proof -
  have "length q \<noteq> 0" by (simp add: assms(4) request_payload_def ModuleMessageHeaderLen_def)
  then have "q \<noteq> []" by simp
  then have flags: "fHdrFlags (evFrame ev) = (if has_more then FRequest OR FMore else FRequest) OR FInline"
    by (simp add: assms(5) emit_frame_def zero_frame_def Let_def)
  have "fHdrFlags (evFrame ev) AND FCancel = 0" "fHdrFlags (evFrame ev) AND FRequest \<noteq> 0"
    "fHdrFlags (evFrame ev) AND FMore \<noteq> 0 \<longleftrightarrow> has_more"
    unfolding flags by (simp_all add: go_const)
  moreover have "slice_at ModuleMessageHeaderLen (length p) q = p"
    by (simp add: assms(4) request_payload_def slice_at_def)
  ultimately show ?thesis
    using request_payload_decodes [OF assms(2,3), of deadlineNS traceID] assms(1,2) body_len_small(1) [OF assms(3)]
    by (simp add: is_fragment_def Let_def call_request_def assms(4,5) request_message_def)
qed

text \<open>The events of a run of fragments of a request are fragments of it to the server.\<close>

lemma sent_fragments:
  assumes "stages kind = Some stageID" and "stageID \<noteq> 0"
    and "\<forall>(p, _)\<in>set parts. length p \<le> unat ModuleMessageMaxBody"
    and "map Some evs
       = request_events c kind corr (map (\<lambda>(p, m). (request_payload stageID deadlineNS traceID p, m)) parts)"
  shows "list_all2 (\<lambda>(p, m) ev. is_fragment stages (call_request kind corr stageID deadlineNS traceID) p m ev) parts evs"
  using assms(3,4)
proof (induction parts arbitrary: evs)
  case (Cons f parts)
  obtain p m where f: "f = (p, m)" by fastforce
  obtain ev evs' where evs: "evs = ev # evs'"
    "ev = \<lparr>evFrame = emit_frame c (if m then FRequest OR FMore else FRequest) kind corr
        (request_payload stageID deadlineNS traceID p), evPayload = request_payload stageID deadlineNS traceID p\<rparr>"
    "map Some evs'
       = request_events c kind corr (map (\<lambda>(p, m). (request_payload stageID deadlineNS traceID p, m)) parts)"
    using Cons.prems(2) by (cases evs) (auto simp: f request_events_def)
  have "is_fragment stages (call_request kind corr stageID deadlineNS traceID) p m ev"
    using Cons.prems(1) assms(1,2) evs(2)
    by (intro sent_fragment [where c = c and q = "request_payload stageID deadlineNS traceID p"]) (simp_all add: f)
  then show ?case using Cons.IH [OF _ evs(3)] Cons.prems(1) by (simp add: evs(1) f)
qed (simp add: request_events_def)

lemma frag_list_part_length: "(p, m) \<in> set (frag_list n xs) \<Longrightarrow> length p \<le> length xs"
proof -
  assume "(p, m) \<in> set (frag_list n xs)"
  then have "p \<in> set (map fst (frag_list n xs))" by force
  then have "length p \<le> length (concat (map fst (frag_list n xs)))"
    unfolding length_concat by (intro member_le_sum_list) auto
  then show ?thesis by (simp only: frag_list_join)
qed

text \<open>What a client has sent between two states.\<close>

definition sent_events :: "client_state \<Rightarrow> client_state \<Rightarrow> Event list \<Rightarrow> bool" where
  "sent_events s s' evs \<longleftrightarrow> client_stream s' = client_stream s @ map Some evs"

lemma send_sends:
  assumes "well_fed (c, m)" and "stageID \<noteq> 0" and "length body \<le> unat ModuleMessageMaxBody"
    and "ModuleMessageHeaderLen < unat (cInlineBudget c)"
    and "send client_caller_bus kind stageID traceID corr deadlineNS body (c, m) = Some (err, s1)"
    and "sent_events (c, m) s1 evs"
  obtains sent rest where "request_frags (cInlineBudget c) stageID deadlineNS traceID body = sent @ rest"
    and "err = None \<longleftrightarrow> rest = []" and "map Some evs = request_events c kind corr sent"
proof -
  obtain err' m1 sent rest where "send client_caller_bus kind stageID traceID corr deadlineNS body (c, m) = Some (err', (c, m1))"
    and *: "request_frags (cInlineBudget c) stageID deadlineNS traceID body = sent @ rest" "err' = None \<longleftrightarrow> rest = []"
      "client_stream (c, m1) = client_stream (c, m) @ request_events c kind corr sent"
    by (rule send_request_stream [OF assms(1-4) refl, where kind = kind and corr = corr and deadlineNS = deadlineNS
          and traceID = traceID])
  then have "err' = err" "s1 = (c, m1)" using assms(5) by simp_all
  then show thesis using * assms(6) by (intro that [of sent rest]) (simp_all add: sent_events_def)
qed

text \<open>C11: A call reaches the handler. When a request has been sent and the events it left in the stream are the
  next in the inbound ring of a serving process that has a place for it, the main loop can run to a
  state in which they are read, nothing has been sent, and exactly one job has started, for the very
  bytes the caller passed, with the stage, the deadline and the trace of the call.\<close>

theorem call_reaches_handler:
  assumes "well_fed (c, m)" and "ModuleMessageHeaderLen < unat (cInlineBudget c)"
    and "stages kind = Some stageID" and "stageID \<noteq> 0" and "length body \<le> unat ModuleMessageMaxBody"
    and "send client_caller_bus kind stageID traceID corr deadlineNS body (c, m) = Some (None, s1)"
    and "sent_events (c, m) s1 evs"
    and "well_fed (svBus sv)" and "client_incoming (svBus sv) = evs @ rest" and "svDone sv = []"
    and "rq = call_request kind corr stageID deadlineNS traceID"
    and "map_of (svJobs sv) corr = None" and "map_of (svAssemblies sv) corr = None"
    and "length (svAssemblies sv) < moduleMaxInFlight" and "refusal has_handler now rq sv = None"
  shows "\<exists>s. (serve_step has_handler stages client_module_bus)\<^sup>*\<^sup>* (Draining, sv)
       (Draining, sv\<lparr>svJobs := AList.update corr (job_of rq (svNextFlag sv)) (svJobs sv),
          svRunning := svRunning sv @ [(job_of rq (svNextFlag sv), body)],
          svFlags := (svFlags sv)(svNextFlag sv := False), svNextFlag := Suc (svNextFlag sv), svBus := s\<rparr>)
     \<and> well_fed s \<and> client_incoming s = rest \<and> client_stream s = client_stream (svBus sv)"
proof -
  let ?parts = "frag_list (unat (cInlineBudget c) - ModuleMessageHeaderLen) body"
  have evs: "map Some evs
      = request_events c kind corr (request_frags (cInlineBudget c) stageID deadlineNS traceID body)"
    by (rule send_sends [OF assms(1,4,5,2,6,7)]) simp
  have "\<forall>(p, _)\<in>set ?parts. length p \<le> unat ModuleMessageMaxBody"
    using frag_list_part_length [of _ _ "unat (cInlineBudget c) - ModuleMessageHeaderLen" body] assms(5) by fastforce
  with assms(3,4) evs have frags: "list_all2 (\<lambda>(p, m) ev. is_fragment stages rq p m ev) ?parts evs"
    unfolding assms(11) request_frags_def
    by (intro sent_fragments [where c = c]) simp_all
  have corr: "rqCorr rq = corr" by (simp add: assms(11) call_request_def)
  have expects: "expects rq sv" "so_far rq sv = []"
    using assms(12-14) by (simp_all add: expects_def so_far_def corr)
  obtain ys p where ys: "?parts = ys @ [(p, False)]" "\<forall>y\<in>set ys. snd y" using frag_list_flags by blast
  have small: "length (so_far rq sv) + length (concat (map fst ?parts)) \<le> unat ModuleMessageMaxBody"
    using assms(5) by (simp add: expects(2) frag_list_join)
  have "AList.delete corr (svAssemblies sv) = svAssemblies sv"
    using assms(13) by (simp add: delete_absent map_of_eq_None_iff)
  then have "started rq (so_far rq sv @ concat (map fst ?parts)) sv
      = sv\<lparr>svJobs := AList.update corr (job_of rq (svNextFlag sv)) (svJobs sv),
          svRunning := svRunning sv @ [(job_of rq (svNextFlag sv), body)],
          svFlags := (svFlags sv)(svNextFlag sv := False), svNextFlag := Suc (svNextFlag sv)\<rparr>"
    by (simp add: started_def corr expects(2) frag_list_join)
  with loop_serves [OF frags ys expects(1) small assms(10,8,9,15)] show ?thesis by simp
qed

text \<open>A route request that the sample client sends in one fragment.\<close>

definition sample_route :: "byte list" where
  "sample_route = route_request selectBalanced 3"

lemma sample_route_length: "length sample_route = 12"
  by (simp add: sample_route_def requestLen_def)

text \<open>The events of a client that had nothing in its stream before.\<close>

lemma stream_events:
  assumes "client_stream s' = client_stream s @ request_events c kind corr sent"
  shows "sent_events s s' (map the (request_events c kind corr sent))"
  using assms by (simp add: sent_events_def request_events_def case_prod_beta comp_def)

lemma call_reaches_handler_witness:
  "\<exists>s sv'. (serve_step True [EventKind \<mapsto> StageSelect] client_module_bus)\<^sup>*\<^sup>* (serve_start s) (Draining, sv')
     \<and> svRunning sv' = [(job_of (call_request 6401 9 1 0 7) 0, sample_route)]"
proof -
  let ?rq = "call_request 6401 9 1 0 7" and ?p = "request_payload 1 0 7 sample_route"
  have stages: "[EventKind \<mapsto> StageSelect] 6401 = Some 1" by (simp add: EventKind_def StageSelect_def)
  have stage: "(1 :: u32) \<noteq> 0" and size: "length sample_route \<le> unat ModuleMessageMaxBody"
    by (simp_all add: sample_route_length ModuleMessageMaxBody_def)
  have one: "request_frags (cInlineBudget sample_client) 1 0 7 sample_route = [(?p, False)]"
    by (simp add: request_frags_def frag_list.simps ModuleMessageHeaderLen_def sample_client_def sample_route_length)
  obtain err m1 sent rest where send: "send client_caller_bus 6401 1 7 9 0 sample_route (sample_client, sample_bus)
      = Some (err, (sample_client, m1))" "[(?p, False)] = sent @ rest" "err = None \<longleftrightarrow> rest = []"
    "client_stream (sample_client, m1) = client_stream (sample_client, sample_bus) @ request_events sample_client 6401 9 sent"
    by (rule send_request_stream [OF sample_well_fed(1) stage size sample_caller_fields(3) one [symmetric],
          where kind = 6401 and corr = 9])
  have "length ?p \<le> 192" by (simp add: request_payload_def ModuleMessageHeaderLen_def sample_route_length)
  then obtain m1' where "emit sample_client FRequest 6401 9 ?p sample_bus = (None, m1')"
    using emit_ok [OF sample_client_ok(1) _ sample_emit_error, of FRequest 9 ?p 6401] by (auto simp: sendable_def)
  then have "err = None"
    using send_frags_list [OF stage size, of client_caller_bus "(sample_client, sample_bus)" 6401 7 9 0] send(1)
      sample_caller_fields(3) one
    by (simp add: client_caller_bus_def moduleInlineBudget_def RequestFragment_def)
  note send = send [unfolded this]
  have "length ?p \<le> 192" "sendable FRequest 9 ?p"
    by (simp_all add: request_payload_def ModuleMessageHeaderLen_def sample_route_length sendable_def)
  then obtain m where m: "well_fed (loop_client sample_client, m)" "client_incoming (loop_client sample_client, m)
      = [\<lparr>evFrame = emit_frame sample_client FRequest 6401 9 ?p, evPayload = ?p\<rparr>]"
    by (metis sample_fed)
  let ?sv = "snd (serve_start (loop_client sample_client, m))"
  have sv: "svBus ?sv = (loop_client sample_client, m)" "svDone ?sv = []" "svJobs ?sv = []" "svAssemblies ?sv = []"
    "svRunning ?sv = []" "svNextFlag ?sv = 0" "serve_start (loop_client sample_client, m) = (Draining, ?sv)"
    by (simp_all add: serve_start_def)
  have "sent = [(?p, False)]" using send(2,3) by simp
  then have evs: "client_incoming (svBus ?sv) = map the (request_events sample_client 6401 9 sent) @ []"
    by (simp add: sv(1) m(2) request_events_def)
  have "refusal True 5 ?rq ?sv = None"
    by (simp add: refusal_def call_request_def moduleMaxInFlight_def sv(3))
  from call_reaches_handler [where stages = "[EventKind \<mapsto> StageSelect]" and kind = 6401 and rq = ?rq and sv = ?sv,
      OF sample_well_fed(1) sample_caller_fields(3) stages stage size send(1) stream_events [OF send(4)] _ evs sv(2) refl _ _ _ this]
    m(1) sv
  show ?thesis by (intro exI [of _ "(loop_client sample_client, m)"]) (auto simp: moduleMaxInFlight_def)
qed

text \<open>C32: What a refused send leaves at the server. When the bus refuses a fragment after the first, the send
  returns its error, and the events that did arrive are a request without its last fragment: the server
  keeps its assembly for good.\<close>

theorem partial_call_is_abandoned:
  assumes "well_fed (c, m)" and "ModuleMessageHeaderLen < unat (cInlineBudget c)"
    and "stages kind = Some stageID" and "stageID \<noteq> 0" and "length body \<le> unat ModuleMessageMaxBody"
    and "send client_caller_bus kind stageID traceID corr deadlineNS body (c, m) = Some (Some err, s1)"
    and "sent_events (c, m) s1 evs" and "evs \<noteq> []"
  shows "\<exists>parts rest. frag_list (unat (cInlineBudget c) - ModuleMessageHeaderLen) body = parts @ rest \<and> rest \<noteq> []
     \<and> abandoned stages \<lparr>abRequest = call_request kind corr stageID deadlineNS traceID, abParts = parts,
          abEvents = map (Pair now) evs\<rparr>"
proof -
  let ?frs = "frag_list (unat (cInlineBudget c) - ModuleMessageHeaderLen) body"
  let ?enc = "\<lambda>(p, m). (request_payload stageID deadlineNS traceID p, m)"
  obtain sent rest where sent: "request_frags (cInlineBudget c) stageID deadlineNS traceID body = sent @ rest" "rest \<noteq> []"
    "map Some evs = request_events c kind corr sent"
    by (rule send_sends [OF assms(1,4,5,2,6,7)]) auto
  define parts where "parts = take (length sent) ?frs"
  have split: "?frs = parts @ drop (length sent) ?frs" by (simp add: parts_def)
  have enc: "sent = map ?enc parts"
    using arg_cong [OF sent(1), of "take (length sent)"] by (simp add: request_frags_def take_map parts_def)
  have len: "length sent < length ?frs"
    using arg_cong [OF sent(1), of length] sent(2) by (simp add: request_frags_def)
  obtain ys p where ys: "?frs = ys @ [(p, False)]" "\<forall>y\<in>set ys. snd y" using frag_list_flags by blast
  then have parts: "parts = take (length sent) ys" using len by (simp add: parts_def)
  have small: "\<forall>(p, _)\<in>set parts. length p \<le> unat ModuleMessageMaxBody"
    using frag_list_part_length [of _ _ "unat (cInlineBudget c) - ModuleMessageHeaderLen" body] assms(5)
    by (fastforce simp: parts_def dest: in_set_takeD)
  have "list_all2 (\<lambda>(p, m) ev. is_fragment stages (call_request kind corr stageID deadlineNS traceID) p m ev) parts evs"
    using assms(3,4) sent(3) small unfolding enc by (intro sent_fragments [where c = c]) simp_all
  then have "list_all2 (\<lambda>(p, m) (now, ev). is_fragment stages (call_request kind corr stageID deadlineNS traceID) p m ev)
      parts (map (Pair now) evs)"
    by (simp add: list_all2_map2 case_prod_unfold)
  moreover have "parts \<noteq> []" using sent(3) assms(8) enc by (auto simp: request_events_def)
  moreover have "\<forall>y\<in>set parts. snd y" using ys(2) by (auto simp: parts dest: in_set_takeD)
  moreover have "length (concat (map fst parts)) \<le> unat ModuleMessageMaxBody"
  proof -
    have "concat (map fst parts) @ concat (map fst (drop (length sent) ?frs)) = concat (map fst ?frs)"
      using arg_cong [OF split, of "\<lambda>l. concat (map fst l)"] by simp
    then have "length (concat (map fst parts)) \<le> length body"
      unfolding frag_list_join by (metis le_add1 length_append)
    then show ?thesis using assms(5) by simp
  qed
  ultimately have "abandoned stages
      \<lparr>abRequest = call_request kind corr stageID deadlineNS traceID, abParts = parts, abEvents = map (Pair now) evs\<rparr>"
    by (simp add: abandoned_def)
  moreover have "drop (length sent) ?frs \<noteq> []" using len by simp
  ultimately show ?thesis using split by blast
qed

text \<open>A request of nine full fragments, which a ring of eight slots cannot take.\<close>

lemma partial_call_is_abandoned_witness:
  "\<exists>err s1 evs parts. send client_caller_bus 6401 1 7 9 0 (replicate 1368 0) (sample_client, sample_bus) = Some (Some err, s1)
     \<and> abandoned [EventKind \<mapsto> StageSelect] \<lparr>abRequest = call_request 6401 9 1 0 7, abParts = parts, abEvents = evs\<rparr>"
proof -
  let ?body = "replicate 1368 0 :: byte list"
  have stages: "[EventKind \<mapsto> StageSelect] 6401 = Some 1" by (simp add: EventKind_def StageSelect_def)
  have stage: "(1 :: u32) \<noteq> 0" and size: "length ?body \<le> unat ModuleMessageMaxBody"
    by (simp_all add: ModuleMessageMaxBody_def)
  let ?frs = "request_frags (cInlineBudget sample_client) 1 0 7 ?body"
  have cut: "frag_list 152 (replicate n 0) = (if n \<le> 152 then [(replicate n 0, False)]
      else (replicate 152 0, True) # frag_list 152 (replicate (n - 152) (0 :: byte)))" for n
    by (subst frag_list.simps) (simp add: min_def)
  have frs: "map snd ?frs = [True, True, True, True, True, True, True, True, False]" and first: "hd ?frs = (request_payload 1 0 7 (replicate 152 0), True)"
    by (simp_all add: request_frags_def sample_client_def ModuleMessageHeaderLen_def cut case_prod_beta comp_def)
  obtain err m1 sent rest where send: "send client_caller_bus 6401 1 7 9 0 ?body (sample_client, sample_bus)
      = Some (err, (sample_client, m1))" "?frs = sent @ rest" "err = None \<longleftrightarrow> rest = []" "well_fed (sample_client, m1)"
    "client_stream (sample_client, m1) = client_stream (sample_client, sample_bus) @ request_events sample_client 6401 9 sent"
    by (rule send_request_stream [OF sample_well_fed(1) stage size sample_caller_fields(3) refl,
          where kind = 6401 and corr = 9 and deadlineNS = 0 and traceID = 7])
  have "length (outbound sample_client m1) \<le> 8"
    using ring_length_le [OF client_okD(3), of sample_client m1] send(4)
    by (simp add: well_fed_def client_inv_def outbound_def)
       (simp add: sample_client_def laid_out_pair_def Let_def laid_out_ring_def ring_list_def)
  then have "length sent \<le> 8"
    using arg_cong [OF send(5), of length] sample_client_ok(2)
    by (simp add: client_stream_def request_events_def)
  moreover have "length ?frs = 9" using arg_cong [OF frs, of length] by simp
  ultimately have "rest \<noteq> []" using send(2) by auto
  then obtain e where e: "err = Some e" using send(3) by auto
  have "sent \<noteq> []"
  proof
    assume "sent = []"
    let ?p = "request_payload 1 0 7 (replicate 152 0)"
    obtain frs' where frs': "?frs = (?p, True) # frs'" using first frs by (cases ?frs) auto
    have "length ?p = 192" by (simp add: request_payload_def ModuleMessageHeaderLen_def)
    moreover from this have "?p \<noteq> []" by (metis list.size(3) zero_neq_numeral)
    ultimately obtain m0 item where m0: "emit sample_client (FRequest OR FMore) 6401 9 ?p sample_bus = (None, m0)"
      "client_ok sample_client m0" "outbound sample_client m0 = [item]"
      using emit_ok [OF sample_client_ok(1) _ sample_emit_error, of "FRequest OR FMore" 9 ?p 6401]
      by (auto simp: sendable_def sample_client_ok(2))
    have "send_list (cbRequestFragment client_caller_bus) 6401 9 frs' (sample_client, m0) = (err, (sample_client, m1))"
      using send_frags_list [OF stage size, of client_caller_bus "(sample_client, sample_bus)" 6401 7 9 0] send(1)
        sample_caller_fields(3) frs' m0(1)
      by (simp add: client_caller_bus_def moduleInlineBudget_def RequestFragment_def request_payload_def ModuleMessageHeaderLen_def)
    from client_requests.send_list_stream [OF _ this] m0(2)
    have "client_stream (sample_client, m1) \<noteq> []" using m0(3) by (auto simp: client_stream_def)
    then show False using send(5) \<open>sent = []\<close> sample_client_ok(2) by (simp add: client_stream_def request_events_def)
  qed
  then have "map the (request_events sample_client 6401 9 sent) \<noteq> []"
    by (simp add: request_events_def)
  from partial_call_is_abandoned [where stages = "[EventKind \<mapsto> StageSelect]" and kind = 6401 and now = 5,
      OF sample_well_fed(1) sample_caller_fields(3) stages stage size send(1) [unfolded e] stream_events [OF send(5)] this]
    send(1) e
  show ?thesis by blast
qed

section \<open>From the handler to the caller\<close>

text \<open>What the caller makes of the result of a job.\<close>

lemma job_result_reply:
  assumes "runHandler work answer seen now = r"
  shows "reply_outcome (mrStatus r) (mrBody r) = (mrStatus r, mrBody r)"
  using assms by (cases answer) (auto simp: runHandler_eq reply_outcome_def validModuleStatus_def Let_def go_const split: if_splits)

text \<open>C1: The whole way of a route request. A job made from a well-formed route request is run by the handler
  at whatever moments, its result is cut into fragments for whatever inline budget, and the caller finds
  these among other traffic: then the call returns the encoding of an index below the candidate count,
  the one that the mode prescribes, or the status that the job was cancelled or too late, and nothing
  else.\<close>

theorem route_call_answered:
  assumes "valid_request mode candidates" and "work = job_of (call_request kind corr StageSelect deadlineNS traceID) flag"
    and "r = runHandler work (fst (Handle (mwInvocation work) (route_request mode candidates) t1 t2 sel)) seen now"
    and "well_fed s" and "\<forall>n. client_events.host_feeds (rdHost (rounds n))"
    and "kind \<noteq> KindCapabilityAbsent" and "kind \<noteq> KindError"
    and "list_all2 (reply_event kind corr) (reply_frags budget StageSelect traceID (mrStatus r) (mrBody r))
       (filter (\<lambda>ev. \<not> unrelated kind corr ev) (client_incoming s))"
  shows "\<exists>res i' s'. awaitReply client_caller_bus ModuleMessageMaxBody rounds kind corr expiry [] i s = Some (res, i', s')
     \<and> (res = CallBody (route_response (pick mode candidates (cursor sel) traceID)) \<and> pick mode candidates (cursor sel) traceID < candidates
        \<or> res \<in> {CallErr (ModuleCallStatusError ModuleStatusCancelled), CallErr (ModuleCallStatusError ModuleStatusDeadlineExceeded)})"
proof -
  let ?body = "route_response (pick mode candidates (cursor sel) traceID)"
  have stage: "StageSelect \<noteq> 0" by (simp add: StageSelect_def)
  have iv: "invStageID (mwInvocation work) = StageSelect" "invTraceID (mwInvocation work) = traceID"
    by (simp_all add: assms(2) job_of_def call_request_def)
  have answer: "fst (Handle (mwInvocation work) (route_request mode candidates) t1 t2 sel)
      \<in> {([], ModuleStatusCancelled), (?body, ModuleStatusOK)}"
    using Selector_Handle_valid [OF iv(1) _ assms(1), of t1 sel t2] iv
    by (cases "Cancelled (mwInvocation work) t1") (auto simp: Handle_def Selector_Handle_def)
  have "length ?body \<le> unat ModuleMessageMaxBody" by (simp add: responseLen_def ModuleMessageMaxBody_def)
  then have result: "(mrStatus r, mrBody r) \<in> {(ModuleStatusOK, ?body), (ModuleStatusCancelled, []),
      (ModuleStatusDeadlineExceeded, [])}"
    using answer unfolding assms(3)
    by (elim insertE emptyE) (simp_all add: runHandler_eq Let_def validModuleStatus_def go_const del: length_route_response)
  have less: "pick mode candidates (cursor sel) traceID < candidates" using pick_less [OF assms(1)] .
  obtain i' s' where "awaitReply client_caller_bus ModuleMessageMaxBody rounds kind corr expiry [] i s
      = Some (if mrStatus r = ModuleStatusOK then CallBody (mrBody r) else CallErr (ModuleCallStatusError (mrStatus r)), i', s')"
    using reply_to_result [OF assms(4,5) job_result_reply [OF assms(3) [symmetric]] stage assms(6-8)] by blast
  then show ?thesis using result less by (auto simp: ModuleStatusOK_def ModuleStatusCancelled_def ModuleStatusDeadlineExceeded_def)
qed

lemma route_call_answered_witness:
  "\<exists>s res i' s'. awaitReply client_caller_bus ModuleMessageMaxBody idle_rounds 6401 9 None [] 0 s = Some (res, i', s')
     \<and> res \<in> {CallBody (route_response (pick selectBalanced 3 7 7)), CallErr (ModuleCallStatusError ModuleStatusCancelled),
          CallErr (ModuleCallStatusError ModuleStatusDeadlineExceeded)}"
proof -
  let ?work = "job_of (call_request 6401 9 StageSelect 0 7) 0"
  let ?sel = "\<lparr>cursor = 7\<rparr>" and ?t = "(\<lambda>_ :: flag_ref. False, 10 :: u64)"
  let ?r = "runHandler ?work (fst (Handle (mwInvocation ?work) (route_request selectBalanced 3) ?t ?t ?sel)) False 10"
  have valid: "valid_request selectBalanced 3" by (simp add: valid_request_def)
  let ?body = "route_response (pick selectBalanced 3 7 7)"
  have "invStageID (mwInvocation ?work) = StageSelect" "invTraceID (mwInvocation ?work) = 7"
    "\<not> Cancelled (mwInvocation ?work) ?t"
    by (simp_all add: job_of_def call_request_def)
  from Selector_Handle_valid [OF this(1,3) valid, of ?sel ?t] this
  have "fst (Handle (mwInvocation ?work) (route_request selectBalanced 3) ?t ?t ?sel) = (?body, ModuleStatusOK)"
    by (simp add: Handle_def)
  then have r: "mrStatus ?r = ModuleStatusOK" "mrBody ?r = ?body"
    by (simp_all add: runHandler_def Let_def validModuleStatus_def job_of_def call_request_def go_const)
  let ?p = "result_payload StageSelect 7 ModuleStatusOK ?body"
  have "length ?p \<le> 192" by (simp add: result_payload_def ModuleMessageHeaderLen_def responseLen_def)
  moreover have "sendable FReply 9 ?p" by (simp add: sendable_def)
  ultimately obtain m where m: "well_fed (loop_client sample_client, m)" "client_incoming (loop_client sample_client, m)
      = [\<lparr>evFrame = emit_frame sample_client FReply 6401 9 ?p, evPayload = ?p\<rparr>]"
    by (metis sample_fed)
  have frags: "reply_frags 192 StageSelect 7 (mrStatus ?r) (mrBody ?r) = [(?p, False)]"
    unfolding r by (simp add: reply_frags_def frag_list.simps ModuleMessageHeaderLen_def responseLen_def)
  have "fHdrFlags (emit_frame sample_client FReply 6401 9 ?p) AND FMore = 0"
    by (simp add: emit_frame_def zero_frame_def Let_def go_const)
  then have replies: "list_all2 (reply_event 6401 9) (reply_frags 192 StageSelect 7 (mrStatus ?r) (mrBody ?r))
      (filter (\<lambda>ev. \<not> unrelated 6401 9 ev) (client_incoming (loop_client sample_client, m)))"
    unfolding frags m(2) by (simp add: unrelated_def reply_event_def Let_def)
  have "\<forall>n. client_events.host_feeds (rdHost (idle_rounds n))" using idle_rounds_feed by blast
  from route_call_answered [OF valid refl refl m(1) this _ _ replies, of None 0]
  show ?thesis
    by (intro exI [of _ "(loop_client sample_client, m)"]) (auto simp: KindCapabilityAbsent_def KindError_def)
qed

end
